theory Spec2Isabelle
  imports Main "HOL-Library.Word"
begin

section \<open>JavaScript values used by the dashboard\<close>

text \<open>
  A JavaScript string is a sequence of 16-bit code units. String literals of the source
  are written with \<open>js\<close>, which maps each character to its code unit.
\<close>

type_synonym jstring = "16 word list"

definition js :: "string \<Rightarrow> jstring" where
  "js s = map (\<lambda>c. of_nat (of_char c)) s"

text \<open>
  The values the component holds in memory: what \<open>JSON.parse\<close> produces and
  \<open>JSON.stringify\<close> prints. An object is the sequence of its members in property order.

  A finite number is kept as the decimal that denotes it, which is how \<open>JSON.stringify\<close>
  prints it and how \<open>JSON.parse\<close> reads it back: \<open>JNum i\<close> is the integer \<open>i\<close>, and
  \<open>JFrac m d\<close> is \<open>m / 10 ^ d\<close> for a number that is not an integer (\<open>d\<close> positive,
  \<open>m\<close> not a multiple of ten). \<open>JNegZero\<close> is negative zero and \<open>JInfinity neg\<close> is
  \<open>Infinity\<close> or, with \<open>neg\<close>, \<open>-Infinity\<close>. The rounding of a literal with more digits than
  a double holds is not modelled (such a literal keeps its digits), and \<open>NaN\<close>, which
  neither \<open>JSON.parse\<close> nor \<open>Date.now()\<close> yields, is left out.
\<close>

datatype json =
    JNull
  | JBool bool
  | JNum int
  | JFrac int nat
  | JNegZero
  | JInfinity bool
  | JStr jstring
  | JArr "json list"
  | JObj "(jstring \<times> json) list"

text \<open>An exception object: its \<open>name\<close> and its \<open>message\<close>.\<close>

datatype js_error = JsError jstring jstring

text \<open>\<open>String(err)\<close> for an Error object, as \<open>Error.prototype.toString\<close> prints it.\<close>

fun String_of_error :: "js_error \<Rightarrow> jstring" where
  "String_of_error (JsError name msg) =
     (if name = [] then msg
      else if msg = [] then name
      else name @ js '': '' @ msg)"

section \<open>The runtime's JSON functions\<close>

text \<open>
  \<open>JSON.stringify\<close> and \<open>JSON.parse\<close> belong to the JavaScript runtime, not to the
  repository; the component calls them on the job list and on response bodies. They are
  modelled here on the values of type \<open>json\<close>.

  \<open>JSON.stringify\<close> quotes a string as the language standard's QuoteJSONString does:
  short escapes for backspace, tab, line feed, form feed, carriage return, the double
  quote and the backslash; a \<open>\u\<close> escape with four lowercase hex digits for the other
  code units below 0x20 and for a surrogate without its partner; every other code unit
  as it is.

  Code units are written in hexadecimal: 0x22 is the double quote, 0x5C the backslash,
  0x2F the slash, 0x2C the comma, 0x3A the colon, 0x2D the minus sign, 0x5B and 0x5D the
  square brackets, 0x7B and 0x7D the braces, 0x30 to 0x39 the digits, 0x62, 0x66, 0x6E,
  0x72, 0x74 and 0x75 the letters b, f, n, r, t and u, and 0x20, 0x09, 0x0A and 0x0D the
  space, the tab, the line feed and the carriage return.
\<close>

definition is_high_surrogate :: "16 word \<Rightarrow> bool" where
  "is_high_surrogate c = (0xD800 \<le> c \<and> c \<le> 0xDBFF)"

definition is_low_surrogate :: "16 word \<Rightarrow> bool" where
  "is_low_surrogate c = (0xDC00 \<le> c \<and> c \<le> 0xDFFF)"

definition hex_digit :: "nat \<Rightarrow> 16 word" where
  "hex_digit n = (if n < 10 then of_nat (48 + n) else of_nat (87 + n))"

definition unicode_escape :: "16 word \<Rightarrow> jstring" where
  "unicode_escape c =
     [0x5C, 0x75, hex_digit (unat c div 4096), hex_digit (unat c div 256 mod 16),
      hex_digit (unat c div 16 mod 16), hex_digit (unat c mod 16)]"

definition quote_unit :: "16 word \<Rightarrow> jstring" where
  "quote_unit c =
     (if c = 0x08 then [0x5C, 0x62]
      else if c = 0x09 then [0x5C, 0x74]
      else if c = 0x0A then [0x5C, 0x6E]
      else if c = 0x0C then [0x5C, 0x66]
      else if c = 0x0D then [0x5C, 0x72]
      else if c = 0x22 then [0x5C, 0x22]
      else if c = 0x5C then [0x5C, 0x5C]
      else if c < 0x20 \<or> is_high_surrogate c \<or> is_low_surrogate c then unicode_escape c
      else [c])"

fun quote_chars :: "jstring \<Rightarrow> jstring" where
  "quote_chars [] = []"
| "quote_chars [c] = quote_unit c"
| "quote_chars (c # d # ds) =
     (if is_high_surrogate c \<and> is_low_surrogate d then c # d # quote_chars ds
      else quote_unit c @ quote_chars (d # ds))"

text \<open>
  A finite number other than zero prints as the language standard's \<open>Number::toString\<close>
  lays out its decimal digits. The number is \<open>m * 10 ^ e\<close>, where \<open>m\<close> has \<open>k\<close> digits and
  does not end in a zero, and \<open>n = k + e\<close> is the position of the decimal point. For \<open>n\<close>
  from \<open>-5\<close> to \<open>21\<close> the digits are written out, padded with zeros or split by the point;
  otherwise the first digit, the rest after a point, and the exponent \<open>n - 1\<close> with its
  sign. 0x2E is the point, 0x65 the letter e, 0x2B the plus sign.
\<close>

definition digit :: "nat \<Rightarrow> 16 word" where
  "digit d = of_nat (48 + d)"

fun digits :: "nat \<Rightarrow> jstring" where
  "digits n = (if n < 10 then [digit n] else digits (n div 10) @ [digit (n mod 10)])"

definition Number_format :: "nat \<Rightarrow> int \<Rightarrow> jstring" where
  "Number_format m e =
     (let ds = digits m; k = int (length ds); n = k + e in
      if - 5 \<le> n \<and> n \<le> 21 then
        (if k \<le> n then ds @ replicate (nat (n - k)) 0x30
         else if 0 < n then take (nat n) ds @ 0x2E # drop (nat n) ds
         else [0x30, 0x2E] @ replicate (nat (- n)) 0x30 @ ds)
      else
        take 1 ds @ (if k = 1 then [] else 0x2E # drop 1 ds) @
        0x65 # (if n - 1 < 0 then 0x2D else 0x2B) # digits (nat \<bar>n - 1\<bar>))"

text \<open>\<open>strip_zeros a = (m, z)\<close>: \<open>a = m * 10 ^ z\<close> and \<open>m\<close> does not end in a zero.\<close>

fun strip_zeros :: "nat \<Rightarrow> nat \<times> nat" where
  "strip_zeros a =
     (if a \<noteq> 0 \<and> a mod 10 = 0 then (case strip_zeros (a div 10) of (m, z) \<Rightarrow> (m, Suc z))
      else (a, 0))"

text \<open>The text of the number \<open>a * 10 ^ x\<close>, negated when \<open>neg\<close>; zero prints as \<open>0\<close>.\<close>

definition number_text :: "bool \<Rightarrow> nat \<Rightarrow> int \<Rightarrow> jstring" where
  "number_text neg a x =
     (if a = 0 then [0x30]
      else
        (case strip_zeros a of
           (m, z) \<Rightarrow> (if neg then [0x2D] else []) @ Number_format m (int z + x)))"

fun JSON_stringify :: "json \<Rightarrow> jstring"
  and stringify_elems :: "json list \<Rightarrow> jstring"
  and stringify_members :: "(jstring \<times> json) list \<Rightarrow> jstring" where
  "JSON_stringify JNull = js ''null''"
| "JSON_stringify (JBool b) = (if b then js ''true'' else js ''false'')"
| "JSON_stringify (JNum i) = number_text (i < 0) (nat \<bar>i\<bar>) 0"
| "JSON_stringify (JFrac m d) = number_text (m < 0) (nat \<bar>m\<bar>) (- int d)"
| "JSON_stringify JNegZero = [0x30]"
| "JSON_stringify (JInfinity neg) = js ''null''"
| "JSON_stringify (JStr s) = 0x22 # quote_chars s @ [0x22]"
| "JSON_stringify (JArr xs) = 0x5B # stringify_elems xs"
| "JSON_stringify (JObj ms) = 0x7B # stringify_members ms"
| "stringify_elems [] = [0x5D]"
| "stringify_elems (x # xs) =
     JSON_stringify x @ (if xs = [] then [0x5D] else 0x2C # stringify_elems xs)"
| "stringify_members [] = [0x7D]"
| "stringify_members ((k, v) # ms) =
     0x22 # quote_chars k @ [0x22, 0x3A] @ JSON_stringify v @
     (if ms = [] then [0x7D] else 0x2C # stringify_members ms)"

text \<open>
  \<open>JSON.parse\<close>. A string token ends at the first unescaped double quote; a raw code
  unit below 0x20 inside it is a syntax error.
\<close>

definition hex_val :: "16 word \<Rightarrow> nat option" where
  "hex_val c =
     (if 0x30 \<le> c \<and> c \<le> 0x39 then Some (unat c - 48)
      else if 0x61 \<le> c \<and> c \<le> 0x66 then Some (unat c - 87)
      else if 0x41 \<le> c \<and> c \<le> 0x46 then Some (unat c - 55)
      else None)"

definition hex4 :: "16 word \<Rightarrow> 16 word \<Rightarrow> 16 word \<Rightarrow> 16 word \<Rightarrow> 16 word option" where
  "hex4 a b c d =
     (case (hex_val a, hex_val b, hex_val c, hex_val d) of
        (Some x, Some y, Some z, Some w) \<Rightarrow> Some (of_nat (x * 4096 + y * 256 + z * 16 + w))
      | _ \<Rightarrow> None)"

definition cons_fst :: "'a \<Rightarrow> ('a list \<times> 'b) option \<Rightarrow> ('a list \<times> 'b) option" where
  "cons_fst x r = map_option (\<lambda>(xs, rest). (x # xs, rest)) r"

fun parse_chars :: "jstring \<Rightarrow> (jstring \<times> jstring) option" where
  "parse_chars [] = None"
| "parse_chars (c # cs) =
     (if c = 0x22 then Some ([], cs)
      else if c = 0x5C then
        (case cs of
           [] \<Rightarrow> None
         | e # r \<Rightarrow>
             if e = 0x22 then cons_fst 0x22 (parse_chars r)
             else if e = 0x5C then cons_fst 0x5C (parse_chars r)
             else if e = 0x2F then cons_fst 0x2F (parse_chars r)
             else if e = 0x62 then cons_fst 0x08 (parse_chars r)
             else if e = 0x66 then cons_fst 0x0C (parse_chars r)
             else if e = 0x6E then cons_fst 0x0A (parse_chars r)
             else if e = 0x72 then cons_fst 0x0D (parse_chars r)
             else if e = 0x74 then cons_fst 0x09 (parse_chars r)
             else if e = 0x75 then
               (case r of
                  h1 # h2 # h3 # h4 # r' \<Rightarrow>
                    (case hex4 h1 h2 h3 h4 of
                       None \<Rightarrow> None
                     | Some u \<Rightarrow> cons_fst u (parse_chars r'))
                | _ \<Rightarrow> None)
             else None)
      else if c < 0x20 then None
      else cons_fst c (parse_chars cs))"

text \<open>
  A number token: an optional minus sign; \<open>0\<close> or a digit from 1 to 9 followed by
  digits; an optional point with at least one digit; an optional exponent, \<open>e\<close> or \<open>E\<close>
  (0x45), with an optional sign and at least one digit. \<open>scan_digits\<close> reads digits into
  \<open>acc\<close> and counts them.
\<close>

definition is_digit :: "16 word \<Rightarrow> bool" where
  "is_digit c = (0x30 \<le> c \<and> c \<le> 0x39)"

text \<open>One more digit \<open>c\<close> after the digits read so far, whose value is \<open>a\<close>.\<close>

definition dstep :: "nat \<Rightarrow> 16 word \<Rightarrow> nat" where
  "dstep a c = a * 10 + (unat c - 48)"

fun scan_digits :: "nat \<Rightarrow> nat \<Rightarrow> jstring \<Rightarrow> nat \<times> nat \<times> jstring" where
  "scan_digits acc cnt [] = (acc, cnt, [])"
| "scan_digits acc cnt (c # cs) =
     (if is_digit c then scan_digits (dstep acc c) (Suc cnt) cs else (acc, cnt, c # cs))"

fun parse_int_part :: "jstring \<Rightarrow> (nat \<times> jstring) option" where
  "parse_int_part [] = None"
| "parse_int_part (c # cs) =
     (if c = 0x30 then Some (0, cs)
      else if is_digit c then (case scan_digits 0 0 (c # cs) of (a, cnt, r) \<Rightarrow> Some (a, r))
      else None)"

fun parse_frac_part :: "nat \<Rightarrow> jstring \<Rightarrow> (nat \<times> nat \<times> jstring) option" where
  "parse_frac_part a [] = Some (a, 0, [])"
| "parse_frac_part a (c # cs) =
     (if c = 0x2E then
        (case scan_digits a 0 cs of
           (a', cnt, r) \<Rightarrow> if cnt = 0 then None else Some (a', cnt, r))
      else Some (a, 0, c # cs))"

fun parse_exp_sign :: "jstring \<Rightarrow> bool \<times> jstring" where
  "parse_exp_sign [] = (False, [])"
| "parse_exp_sign (c # cs) =
     (if c = 0x2D then (True, cs) else if c = 0x2B then (False, cs) else (False, c # cs))"

fun parse_exp_part :: "jstring \<Rightarrow> (int \<times> jstring) option" where
  "parse_exp_part [] = Some (0, [])"
| "parse_exp_part (c # cs) =
     (if c = 0x65 \<or> c = 0x45 then
        (case parse_exp_sign cs of
           (neg, ds) \<Rightarrow>
             (case scan_digits 0 0 ds of
                (x, cnt, r) \<Rightarrow>
                  if cnt = 0 then None else Some (if neg then - int x else int x, r)))
      else Some (0, c # cs))"

text \<open>
  The value of a literal. A double holds magnitudes below \<open>2 ^ 1024\<close>: a literal of
  magnitude \<open>2 ^ 1024 - 2 ^ 970\<close> (halfway to it from the largest double) or more is read
  as an infinity, and one of magnitude \<open>2 ^ - 1075\<close> (half the smallest double) or less as
  a zero; either keeps the sign.
\<close>

definition signed_zero :: "bool \<Rightarrow> json" where
  "signed_zero neg = (if neg then JNegZero else JNum 0)"

definition overflow_bound :: nat where
  "overflow_bound = 2 ^ 1024 - 2 ^ 970"

definition underflow_scale :: nat where
  "underflow_scale = 2 ^ 1075"

definition overflows :: "nat \<Rightarrow> int \<Rightarrow> bool" where
  "overflows m e =
     (if 0 \<le> e then overflow_bound \<le> m * 10 ^ nat e
      else overflow_bound * 10 ^ nat (- e) \<le> m)"

definition underflows :: "nat \<Rightarrow> int \<Rightarrow> bool" where
  "underflows m e = (e < 0 \<and> m * underflow_scale \<le> 10 ^ nat (- e))"

definition finite_number :: "bool \<Rightarrow> nat \<Rightarrow> int \<Rightarrow> json" where
  "finite_number neg m e =
     (if 0 \<le> e then JNum ((if neg then - 1 else 1) * int (m * 10 ^ nat e))
      else JFrac ((if neg then - 1 else 1) * int m) (nat (- e)))"

text \<open>The number \<open>a * 10 ^ x\<close>, negated when \<open>neg\<close>, as a value.\<close>

definition make_number :: "bool \<Rightarrow> nat \<Rightarrow> int \<Rightarrow> json" where
  "make_number neg a x =
     (if a = 0 then signed_zero neg
      else
        (case strip_zeros a of
           (m, z) \<Rightarrow>
             if overflows m (int z + x) then JInfinity neg
             else if underflows m (int z + x) then signed_zero neg
             else finite_number neg m (int z + x)))"

fun parse_sign :: "jstring \<Rightarrow> bool \<times> jstring" where
  "parse_sign [] = (False, [])"
| "parse_sign (c # cs) = (if c = 0x2D then (True, cs) else (False, c # cs))"

definition parse_number :: "jstring \<Rightarrow> (json \<times> jstring) option" where
  "parse_number s =
     (case parse_sign s of
        (neg, s1) \<Rightarrow>
          (case parse_int_part s1 of
             None \<Rightarrow> None
           | Some (a, r1) \<Rightarrow>
               (case parse_frac_part a r1 of
                  None \<Rightarrow> None
                | Some (a', cnt, r2) \<Rightarrow>
                    (case parse_exp_part r2 of
                       None \<Rightarrow> None
                     | Some (x, r3) \<Rightarrow> Some (make_number neg a' (x - int cnt), r3)))))"

definition is_ws :: "16 word \<Rightarrow> bool" where
  "is_ws c = (c = 0x20 \<or> c = 0x09 \<or> c = 0x0A \<or> c = 0x0D)"

fun skip_ws :: "jstring \<Rightarrow> jstring" where
  "skip_ws [] = []"
| "skip_ws (c # cs) = (if is_ws c then skip_ws cs else c # cs)"

fun strip_prefix :: "jstring \<Rightarrow> jstring \<Rightarrow> jstring option" where
  "strip_prefix [] s = Some s"
| "strip_prefix (p # ps) [] = None"
| "strip_prefix (p # ps) (c # cs) = (if p = c then strip_prefix ps cs else None)"

text \<open>
  An object lists its properties in property order: the names that are array indices
  (\<open>0\<close>, or digits without a leading zero, below \<open>2 ^ 32 - 1\<close>) first, in ascending
  order, then the other names in the order of their creation. \<open>JSON.parse\<close> defines the
  members one after the other in text order; defining a name again keeps its place and
  replaces its value.
\<close>

definition digits_value :: "jstring \<Rightarrow> nat" where
  "digits_value ds = foldl dstep 0 ds"

fun array_index :: "jstring \<Rightarrow> nat option" where
  "array_index [] = None"
| "array_index (c # cs) =
     (if c = 0x30 then (if cs = [] then Some 0 else None)
      else if list_all is_digit (c # cs) \<and> digits_value (c # cs) < 2 ^ 32 - 1
      then Some (digits_value (c # cs))
      else None)"

fun insert_index :: "nat \<Rightarrow> jstring \<times> 'v \<Rightarrow> (jstring \<times> 'v) list \<Rightarrow> (jstring \<times> 'v) list" where
  "insert_index i kv [] = [kv]"
| "insert_index i kv (p # ps) =
     (case array_index (fst p) of
        None \<Rightarrow> kv # p # ps
      | Some j \<Rightarrow> if j < i then p # insert_index i kv ps else kv # p # ps)"

definition define_property :: "(jstring \<times> 'v) list \<Rightarrow> jstring \<times> 'v \<Rightarrow> (jstring \<times> 'v) list" where
  "define_property ps kv =
     (if fst kv \<in> fst ` set ps then map (\<lambda>p. if fst p = fst kv then kv else p) ps
      else
        (case array_index (fst kv) of
           None \<Rightarrow> ps @ [kv]
         | Some i \<Rightarrow> insert_index i kv ps))"

definition object_of :: "(jstring \<times> 'v) list \<Rightarrow> (jstring \<times> 'v) list" where
  "object_of ms = foldl define_property [] ms"

text \<open>
  Values, array elements and object members, with white space allowed between tokens.
  The descent carries a step budget: every call spends one step, and every call
  consumes at least one character of a well-formed text before it calls again, so that
  a budget above the length of the text is never the reason for a failure on a text
  that \<open>JSON_stringify\<close> printed (\<open>parse_stringify\<close> below).
\<close>

fun parse_value :: "nat \<Rightarrow> jstring \<Rightarrow> (json \<times> jstring) option"
  and parse_elems :: "nat \<Rightarrow> jstring \<Rightarrow> (json list \<times> jstring) option"
  and parse_members :: "nat \<Rightarrow> jstring \<Rightarrow> ((jstring \<times> json) list \<times> jstring) option" where
  "parse_value 0 s = None"
| "parse_value (Suc f) s =
     (case skip_ws s of
        [] \<Rightarrow> None
      | c # r \<Rightarrow>
          if c = 0x5B then
            (case skip_ws r of
               [] \<Rightarrow> None
             | d # r' \<Rightarrow>
                 if d = 0x5D then Some (JArr [], r')
                 else map_option (\<lambda>(xs, rest). (JArr xs, rest)) (parse_elems f (d # r')))
          else if c = 0x7B then
            (case skip_ws r of
               [] \<Rightarrow> None
             | d # r' \<Rightarrow>
                 if d = 0x7D then Some (JObj [], r')
                 else map_option (\<lambda>(ms, rest). (JObj (object_of ms), rest)) (parse_members f (d # r')))
          else if c = 0x22 then map_option (\<lambda>(t, rest). (JStr t, rest)) (parse_chars r)
          else if c = 0x6E then map_option (Pair JNull) (strip_prefix (js ''ull'') r)
          else if c = 0x74 then map_option (Pair (JBool True)) (strip_prefix (js ''rue'') r)
          else if c = 0x66 then map_option (Pair (JBool False)) (strip_prefix (js ''alse'') r)
          else parse_number (c # r))"
| "parse_elems 0 s = None"
| "parse_elems (Suc f) s =
     (case parse_value f s of
        None \<Rightarrow> None
      | Some (v, r) \<Rightarrow>
          (case skip_ws r of
             [] \<Rightarrow> None
           | c # r' \<Rightarrow>
               if c = 0x5D then Some ([v], r')
               else if c = 0x2C then cons_fst v (parse_elems f r')
               else None))"
| "parse_members 0 s = None"
| "parse_members (Suc f) s =
     (case skip_ws s of
        [] \<Rightarrow> None
      | q # r \<Rightarrow>
          if q \<noteq> 0x22 then None
          else
            (case parse_chars r of
               None \<Rightarrow> None
             | Some (k, r1) \<Rightarrow>
                 (case skip_ws r1 of
                    [] \<Rightarrow> None
                  | c # r2 \<Rightarrow>
                      if c \<noteq> 0x3A then None
                      else
                        (case parse_value f r2 of
                           None \<Rightarrow> None
                         | Some (v, r3) \<Rightarrow>
                             (case skip_ws r3 of
                                [] \<Rightarrow> None
                              | e # r4 \<Rightarrow>
                                  if e = 0x7D then Some ([(k, v)], r4)
                                  else if e = 0x2C then cons_fst (k, v) (parse_members f r4)
                                  else None)))))"

text \<open>
  The SyntaxError that \<open>JSON.parse\<close> throws. The wording of its message differs between
  engines; one fixed text stands for it.
\<close>

definition syntax_error :: js_error where
  "syntax_error = JsError (js ''SyntaxError'') (js ''Unexpected token in JSON'')"

definition JSON_parse :: "jstring \<Rightarrow> js_error + json" where
  "JSON_parse s =
     (case parse_value (Suc (length s)) s of
        None \<Rightarrow> Inl syntax_error
      | Some (v, rest) \<Rightarrow> if skip_ws rest = [] then Inr v else Inl syntax_error)"

text \<open>The input after a number token: nothing that would make the token longer.\<close>

definition no_digit_ahead :: "jstring \<Rightarrow> bool" where
  "no_digit_ahead r =
     (case r of
        [] \<Rightarrow> True
      | c # _ \<Rightarrow> \<not> is_digit c \<and> c \<noteq> 0x2E \<and> c \<noteq> 0x65 \<and> c \<noteq> 0x45)"

text \<open>The input after a run of digits: no further digit.\<close>

definition digits_end :: "jstring \<Rightarrow> bool" where
  "digits_end r = (case r of [] \<Rightarrow> True | c # _ \<Rightarrow> \<not> is_digit c)"

text \<open>
  What \<open>JSON.parse\<close> returns for the text that \<open>JSON.stringify\<close> printed for a value: an
  infinity was printed as \<open>null\<close> and negative zero as \<open>0\<close>, and a number or an object in
  another than its own form comes back in its own form.
\<close>

fun JSON_image :: "json \<Rightarrow> json"
  and image_elems :: "json list \<Rightarrow> json list"
  and image_members :: "(jstring \<times> json) list \<Rightarrow> (jstring \<times> json) list" where
  "JSON_image JNull = JNull"
| "JSON_image (JBool b) = JBool b"
| "JSON_image (JNum i) = make_number (i < 0) (nat \<bar>i\<bar>) 0"
| "JSON_image (JFrac m d) = make_number (m < 0) (nat \<bar>m\<bar>) (- int d)"
| "JSON_image JNegZero = JNum 0"
| "JSON_image (JInfinity neg) = JNull"
| "JSON_image (JStr s) = JStr s"
| "JSON_image (JArr xs) = JArr (image_elems xs)"
| "JSON_image (JObj ms) = JObj (object_of (image_members ms))"
| "image_elems [] = []"
| "image_elems (x # xs) = JSON_image x # image_elems xs"
| "image_members [] = []"
| "image_members ((k, v) # ms) = (k, JSON_image v) # image_members ms"

text \<open>
  The values in their own form, as the runtime holds them: a finite number within the
  range of doubles, a fraction with a positive number of decimals and a numerator that
  is no multiple of ten, an object with distinct names in property order.
\<close>

definition key_before :: "jstring \<Rightarrow> jstring \<Rightarrow> bool" where
  "key_before k1 k2 =
     (case array_index k2 of
        None \<Rightarrow> True
      | Some j \<Rightarrow> (case array_index k1 of None \<Rightarrow> False | Some i \<Rightarrow> i < j))"

definition property_order :: "jstring list \<Rightarrow> bool" where
  "property_order ks = (distinct ks \<and> sorted_wrt key_before ks)"

fun well_formed :: "json \<Rightarrow> bool"
  and well_formed_elems :: "json list \<Rightarrow> bool"
  and well_formed_members :: "(jstring \<times> json) list \<Rightarrow> bool" where
  "well_formed (JNum i) = (nat \<bar>i\<bar> < overflow_bound)"
| "well_formed (JFrac m d) =
     (0 < d \<and> m mod 10 \<noteq> 0 \<and> nat \<bar>m\<bar> < overflow_bound * 10 ^ d \<and>
      10 ^ d < nat \<bar>m\<bar> * underflow_scale)"
| "well_formed (JArr xs) = well_formed_elems xs"
| "well_formed (JObj ms) = (property_order (map fst ms) \<and> well_formed_members ms)"
| "well_formed v = True"
| "well_formed_elems [] = True"
| "well_formed_elems (x # xs) = (well_formed x \<and> well_formed_elems xs)"
| "well_formed_members [] = True"
| "well_formed_members ((k, v) # ms) = (well_formed v \<and> well_formed_members ms)"

text \<open>No negative zero and no infinity anywhere in the value.\<close>

fun finite_numbers :: "json \<Rightarrow> bool"
  and finite_numbers_elems :: "json list \<Rightarrow> bool"
  and finite_numbers_members :: "(jstring \<times> json) list \<Rightarrow> bool" where
  "finite_numbers JNegZero = False"
| "finite_numbers (JInfinity neg) = False"
| "finite_numbers (JArr xs) = finite_numbers_elems xs"
| "finite_numbers (JObj ms) = finite_numbers_members ms"
| "finite_numbers v = True"
| "finite_numbers_elems [] = True"
| "finite_numbers_elems (x # xs) = (finite_numbers x \<and> finite_numbers_elems xs)"
| "finite_numbers_members [] = True"
| "finite_numbers_members ((k, v) # ms) = (finite_numbers v \<and> finite_numbers_members ms)"

section \<open>Browser storage\<close>

text \<open>
  \<open>localStorage\<close>: a string-keyed store of strings. Touching it throws when the browser
  denies access, and \<open>setItem\<close> throws when the quota is used up.
\<close>

record storage =
  items :: "jstring \<Rightarrow> jstring option"
  access_denied :: bool
  quota_exceeded :: bool

definition SecurityError :: js_error where
  "SecurityError = JsError (js ''SecurityError'') (js ''The operation is insecure.'')"

definition QuotaExceededError :: js_error where
  "QuotaExceededError = JsError (js ''QuotaExceededError'') (js ''The quota has been exceeded.'')"

definition getItem :: "storage \<Rightarrow> jstring \<Rightarrow> js_error + jstring option" where
  "getItem sto k = (if access_denied sto then Inl SecurityError else Inr (items sto k))"

definition setItem :: "storage \<Rightarrow> jstring \<Rightarrow> jstring \<Rightarrow> js_error + storage" where
  "setItem sto k v =
     (if access_denied sto then Inl SecurityError
      else if quota_exceeded sto then Inl QuotaExceededError
      else Inr (sto\<lparr>items := (items sto)(k \<mapsto> v)\<rparr>))"

text \<open>\<open>x || d\<close> where \<open>x\<close> is a string or \<open>null\<close>: \<open>null\<close> and the empty string are falsy.\<close>

definition or_else :: "jstring option \<Rightarrow> jstring \<Rightarrow> jstring" where
  "or_else x d = (case x of None \<Rightarrow> d | Some s \<Rightarrow> if s = [] then d else s)"

section \<open>Configuration resolver\<close>

text \<open>
  What reading a property gives: the getter throws, the value is \<open>undefined\<close> (or
  another falsy value, which the conditions of the source treat alike), or there is a
  value.
\<close>

datatype 'a lookup = Throws js_error | Undefined | Value 'a

text \<open>
  The host page as \<open>getDefaultApiBase\<close> sees it. \<open>window_APP_API_BASE\<close> is \<open>None\<close> when
  \<open>typeof window\<close> is \<open>'undefined'\<close>, and otherwise what reading
  \<open>window.__APP_API_BASE\<close> gives. \<open>globalThis_process\<close> is \<open>None\<close> when \<open>typeof globalThis\<close>
  is \<open>'undefined'\<close>, and otherwise what reading \<open>globalThis.process\<close>, then \<open>.env\<close>, then
  \<open>.VITE_API_BASE\<close> gives. Both overrides are strings.
\<close>

record host =
  window_APP_API_BASE :: "jstring lookup option"
  globalThis_process :: "jstring lookup lookup lookup option"

text \<open>
  The body of the first \<open>try\<close> block: \<open>Inl\<close> when it throws, \<open>Inr (Some s)\<close> when it
  returns \<open>s\<close>, \<open>Inr None\<close> when the condition is falsy and control falls through.
\<close>

definition read_window_base :: "host \<Rightarrow> js_error + jstring option" where
  "read_window_base h =
     (case window_APP_API_BASE h of
        None \<Rightarrow> Inr None
      | Some (Throws e) \<Rightarrow> Inl e
      | Some Undefined \<Rightarrow> Inr None
      | Some (Value s) \<Rightarrow> Inr (if s \<noteq> [] then Some s else None))"

text \<open>The body of the second \<open>try\<close> block, with the same reading of the result.\<close>

definition read_process_env :: "host \<Rightarrow> js_error + jstring option" where
  "read_process_env h =
     (case globalThis_process h of
        None \<Rightarrow> Inr None
      | Some (Throws e) \<Rightarrow> Inl e
      | Some Undefined \<Rightarrow> Inr None
      | Some (Value (Throws e)) \<Rightarrow> Inl e
      | Some (Value Undefined) \<Rightarrow> Inr None
      | Some (Value (Value (Throws e))) \<Rightarrow> Inl e
      | Some (Value (Value Undefined)) \<Rightarrow> Inr None
      | Some (Value (Value (Value s))) \<Rightarrow> Inr (if s \<noteq> [] then Some s else None))"

text \<open>\<open>try { body } catch (e) { handler }\<close>.\<close>

definition try_catch :: "js_error + 'a \<Rightarrow> (js_error \<Rightarrow> js_error + 'a) \<Rightarrow> js_error + 'a" where
  "try_catch body handler = (case body of Inl e \<Rightarrow> handler e | Inr v \<Rightarrow> Inr v)"

definition getDefaultApiBase :: "host \<Rightarrow> js_error + jstring" where
  "getDefaultApiBase h =
     (case try_catch (read_window_base h) (\<lambda>e. Inr None) of
        Inl e \<Rightarrow> Inl e
      | Inr (Some s) \<Rightarrow> Inr s
      | Inr None \<Rightarrow>
          (case try_catch (read_process_env h) (\<lambda>e. Inr None) of
             Inl e \<Rightarrow> Inl e
           | Inr (Some s) \<Rightarrow> Inr s
           | Inr None \<Rightarrow> Inr (js ''http://localhost:9000'')))"

section \<open>Component state\<close>

text \<open>
  The nine \<open>useState\<close> cells of \<open>App\<close>. \<open>response\<close> and \<open>error\<close> start as \<open>null\<close>;
  \<open>error\<close> later holds a parsed body or a string. \<open>jobs\<close> holds whatever was last passed
  to \<open>setJobs\<close>: an array in normal operation.
\<close>

record state =
  apiBase :: jstring
  apiBaseInput :: jstring
  title :: jstring
  description :: jstring
  loading :: bool
  response :: json
  error :: json
  jobs :: json
  apiToken :: jstring

text \<open>
  The initialiser of the \<open>apiBase\<close> cell; \<open>dflt\<close> is the value of \<open>DEFAULT_API_BASE\<close>:
  \<open>try { return localStorage.getItem('ac_api_base') || DEFAULT_API_BASE }
   catch (e) { return DEFAULT_API_BASE }\<close>.
\<close>

definition initial_apiBase :: "jstring \<Rightarrow> storage \<Rightarrow> jstring" where
  "initial_apiBase dflt sto =
     (case getItem sto (js ''ac_api_base'') of
        Inl e \<Rightarrow> dflt
      | Inr saved \<Rightarrow> or_else saved dflt)"

text \<open>
  The state of the first render. The module computes \<open>DEFAULT_API_BASE\<close> when it is
  loaded; were that to throw, there would be no component.
\<close>

definition initial_state :: "host \<Rightarrow> storage \<Rightarrow> js_error + state" where
  "initial_state h sto =
     (case getDefaultApiBase h of
        Inl e \<Rightarrow> Inl e
      | Inr dflt \<Rightarrow>
          Inr \<lparr>apiBase = initial_apiBase dflt sto, apiBaseInput = initial_apiBase dflt sto,
               title = [], description = [], loading = False, response = JNull,
               error = JNull, jobs = JArr [], apiToken = []\<rparr>)"

text \<open>
  The first effect, run once after mount:
  \<open>try { const saved = localStorage.getItem('ac_jobs'); if (saved) setJobs(JSON.parse(saved)) }
   catch (e) { }\<close>.
\<close>

definition load_jobs_effect :: "storage \<Rightarrow> state \<Rightarrow> state" where
  "load_jobs_effect sto st =
     (case getItem sto (js ''ac_jobs'') of
        Inl e \<Rightarrow> st
      | Inr None \<Rightarrow> st
      | Inr (Some saved) \<Rightarrow>
          if saved = [] then st
          else (case JSON_parse saved of Inl e \<Rightarrow> st | Inr v \<Rightarrow> st\<lparr>jobs := v\<rparr>))"


text \<open>
  The third effect, run whenever \<open>apiBase\<close> changes:
  \<open>try { localStorage.setItem('ac_api_base', apiBase) } catch (e) {}\<close>.
\<close>

definition persist_apiBase_effect :: "state \<Rightarrow> storage \<Rightarrow> storage" where
  "persist_apiBase_effect st sto =
     (case setItem sto (js ''ac_api_base'') (apiBase st) of
        Inl e \<Rightarrow> sto
      | Inr sto' \<Rightarrow> sto')"

text \<open>
  The \<open>onClick\<close> handler of the Clear button:
  \<open>setTitle(''); setDescription(''); setResponse(null); setError(null)\<close>.
\<close>

definition Clear :: "state \<Rightarrow> state" where
  "Clear st = st\<lparr>title := [], description := [], response := JNull, error := JNull\<rparr>"

text \<open>The \<open>onClick\<close> handler of the Set button: \<open>setApiBase(apiBaseInput)\<close>.\<close>

definition Set_apiBase :: "state \<Rightarrow> state" where
  "Set_apiBase st = st\<lparr>apiBase := apiBaseInput st\<rparr>"

section \<open>The submission endpoint\<close>

text \<open>
  \<open>s.replace(/\/$/, '')\<close>: the pattern is a slash followed by the end of the input, and
  the first match from the left is replaced by the empty string. The scan below tries
  each position in turn, as the matcher does.
\<close>

fun replace_trailing_slash :: "jstring \<Rightarrow> jstring" where
  "replace_trailing_slash [] = []"
| "replace_trailing_slash (c # cs) =
     (if c = 0x2F \<and> cs = [] then [] else c # replace_trailing_slash cs)"

definition endpoint :: "jstring \<Rightarrow> jstring" where
  "endpoint base = replace_trailing_slash base @ js ''/feature_request''"

section \<open>Submitting a feature request\<close>

record http_request =
  url :: jstring
  http_method :: jstring
  headers :: "(jstring \<times> jstring) list"
  body :: jstring

text \<open>
  A response: its \<open>ok\<close> flag (status in the range 200 to 299), what
  \<open>headers.get('content-type')\<close> gives, and what awaiting \<open>text()\<close> gives (reading the
  body can fail).
\<close>

record http_response =
  ok :: bool
  content_type :: "jstring option"
  body_text :: "js_error + jstring"

text \<open>\<open>await res.json()\<close>: the body text, parsed as JSON.\<close>

definition res_json :: "http_response \<Rightarrow> js_error + json" where
  "res_json res = (case body_text res of Inl e \<Rightarrow> Inl e | Inr t \<Rightarrow> JSON_parse t)"

text \<open>\<open>s.includes(p)\<close>: \<open>p\<close> occurs in \<open>s\<close> at some position.\<close>

fun String_includes :: "jstring \<Rightarrow> jstring \<Rightarrow> bool" where
  "String_includes [] p = (p = [])"
| "String_includes (c # cs) p = (strip_prefix p (c # cs) \<noteq> None \<or> String_includes cs p)"

definition declares_json :: "http_response \<Rightarrow> bool" where
  "declares_json res = String_includes (or_else (content_type res) []) (js ''application/json'')"

text \<open>
  Lines 119 to 130 of \<open>submitFeature\<close>: the value of \<open>data\<close>, or the exception that
  leaves the \<open>try\<close> block.
\<close>

definition parse_body :: "http_response \<Rightarrow> js_error + json" where
  "parse_body res =
     (if declares_json res then res_json res
      else
        (case body_text res of
           Inl e \<Rightarrow> Inl e
         | Inr t \<Rightarrow>
             (case JSON_parse t of
                Inl e \<Rightarrow> Inr (JObj [(js ''text'', JStr t)])
              | Inr data \<Rightarrow> Inr data)))"

text \<open>
  What one run of \<open>submitFeature\<close> reads from outside the component: the network, and
  the clock through \<open>Date.now()\<close> and \<open>new Date().toISOString()\<close>.
\<close>

record env =
  fetch :: "http_request \<Rightarrow> js_error + http_response"
  Date_now :: int
  toISOString :: jstring

definition build_request :: "state \<Rightarrow> http_request" where
  "build_request st =
     \<lparr>url = endpoint (apiBase st), http_method = js ''POST'',
      headers =
        (js ''Content-Type'', js ''application/json'') #
        (if apiToken st \<noteq> [] then [(js ''Authorization'', js ''Bearer '' @ apiToken st)] else []),
      body =
        JSON_stringify
          (JObj [(js ''title'', JStr (title st)), (js ''description'', JStr (description st))])\<rparr>"

text \<open>
  Lines 112 to 130: the response and the parsed body, or the exception the \<open>catch\<close>
  clause receives.
\<close>

definition attempt :: "state \<Rightarrow> env \<Rightarrow> js_error + http_response \<times> json" where
  "attempt st e =
     (case fetch e (build_request st) of
        Inl err \<Rightarrow> Inl err
      | Inr res \<Rightarrow> (case parse_body res of Inl err \<Rightarrow> Inl err | Inr data \<Rightarrow> Inr (res, data)))"

definition new_job :: "state \<Rightarrow> env \<Rightarrow> json \<Rightarrow> json" where
  "new_job st e data =
     JObj [(js ''id'', JNum (Date_now e)), (js ''title'', JStr (title st)),
           (js ''created_at'', JStr (toISOString e)), (js ''result'', data)]"

text \<open>Iterating a string yields its code points, a surrogate pair as one string.\<close>

fun code_points :: "jstring \<Rightarrow> jstring list" where
  "code_points [] = []"
| "code_points [c] = [[c]]"
| "code_points (c # d # ds) =
     (if is_high_surrogate c \<and> is_low_surrogate d then [c, d] # code_points ds
      else [c] # code_points (d # ds))"

definition TypeError :: "jstring \<Rightarrow> js_error" where
  "TypeError msg = JsError (js ''TypeError'') msg"

text \<open>\<open>...prev\<close> inside an array literal: arrays and strings are iterable, nothing else is.\<close>

fun spread :: "json \<Rightarrow> js_error + json list" where
  "spread (JArr xs) = Inr xs"
| "spread (JStr s) = Inr (map JStr (code_points s))"
| "spread v = Inl (TypeError (js ''prev is not iterable''))"

text \<open>The updater passed to \<open>setJobs\<close>: \<open>(prev) => [job, ...prev].slice(0, 30)\<close>.\<close>

definition prepend_job :: "json \<Rightarrow> json \<Rightarrow> js_error + json" where
  "prepend_job job prev =
     (case spread prev of Inl e \<Rightarrow> Inl e | Inr xs \<Rightarrow> Inr (JArr (take 30 (job # xs))))"

text \<open>
  \<open>submitFeature\<close>, from the click to the state after the updates it queued are applied.
  Every exception inside its \<open>try\<close> block ends in the \<open>catch\<close> clause. React runs the
  \<open>setJobs\<close> updater later, while rendering, where nothing catches: \<open>Inl\<close> is that
  uncaught exception.
\<close>

definition submitFeature :: "state \<Rightarrow> env \<Rightarrow> js_error + state" where
  "submitFeature st e =
     (let st1 = st\<lparr>loading := True, response := JNull, error := JNull\<rparr> in
      case attempt st e of
        Inl err \<Rightarrow> Inr (st1\<lparr>error := JStr (String_of_error err), loading := False\<rparr>)
      | Inr (res, data) \<Rightarrow>
          if \<not> ok res then Inr (st1\<lparr>error := data, loading := False\<rparr>)
          else
            (case prepend_job (new_job st e data) (jobs st1) of
               Inl err \<Rightarrow> Inl err
             | Inr js' \<Rightarrow>
                 Inr (st1\<lparr>jobs := js', response := data, title := [], description := [],
                          loading := False\<rparr>)))"

text \<open>
  A submission succeeds when the request is answered, the body yields \<open>data\<close> and the
  status is in the 2xx range.
\<close>

definition successful :: "state \<Rightarrow> env \<Rightarrow> bool" where
  "successful st e = (case attempt st e of Inl err \<Rightarrow> False | Inr (res, data) \<Rightarrow> ok res)"

definition result_data :: "state \<Rightarrow> env \<Rightarrow> json" where
  "result_data st e = (case attempt st e of Inl err \<Rightarrow> JNull | Inr (res, data) \<Rightarrow> data)"

text \<open>
  The user fills in the form (the \<open>onChange\<close> handlers call \<open>setTitle\<close> and
  \<open>setDescription\<close>) and submits.
\<close>

definition fill_form :: "jstring \<Rightarrow> jstring \<Rightarrow> state \<Rightarrow> state" where
  "fill_form t d st = st\<lparr>title := t, description := d\<rparr>"

text \<open>A sequence of submissions, each with the form contents typed before it.\<close>

fun submit_all :: "state \<Rightarrow> (jstring \<times> jstring \<times> env) list \<Rightarrow> js_error + state" where
  "submit_all st [] = Inr st"
| "submit_all st ((t, d, e) # rest) =
     (case submitFeature (fill_form t d st) e of
        Inl err \<Rightarrow> Inl err
      | Inr st' \<Rightarrow> submit_all st' rest)"

text \<open>The job that a submission of the sequence creates.\<close>

definition job_of :: "state \<Rightarrow> jstring \<times> jstring \<times> env \<Rightarrow> json" where
  "job_of st s =
     (case s of (t, d, e) \<Rightarrow> new_job (fill_form t d st) e (result_data (fill_form t d st) e))"

text \<open>\<open>j.id\<close> for a list entry: \<open>None\<close> is \<open>undefined\<close>. The last member of that name counts.\<close>

fun job_id :: "json \<Rightarrow> json option" where
  "job_id (JObj ms) = map_of (rev ms) (js ''id'')"
| "job_id v = None"

section \<open>Sample data\<close>

definition empty_storage :: storage where
  "empty_storage = \<lparr>items = (\<lambda>k. None), access_denied = False, quota_exceeded = False\<rparr>"

definition bare_host :: host where
  "bare_host = \<lparr>window_APP_API_BASE = None, globalThis_process = None\<rparr>"

definition blank_state :: state where
  "blank_state =
     \<lparr>apiBase = js ''http://localhost:9000'', apiBaseInput = js ''http://localhost:9000'',
      title = [], description = [], loading = False, response = JNull, error = JNull,
      jobs = JArr [], apiToken = []\<rparr>"

definition sample_data :: json where
  "sample_data = JObj [(js ''code'', JStr (js ''def f(): pass''))]"

definition ok_response :: http_response where
  "ok_response =
     \<lparr>ok = True, content_type = Some (js ''application/json''),
      body_text = Inr (JSON_stringify sample_data)\<rparr>"

definition sample_env :: "int \<Rightarrow> env" where
  "sample_env now =
     \<lparr>fetch = (\<lambda>req. Inr ok_response), Date_now = now,
      toISOString = js ''2026-01-01T00:00:00.000Z''\<rparr>"

definition sample_job :: "jstring \<Rightarrow> int \<Rightarrow> json" where
  "sample_job t now =
     JObj [(js ''id'', JNum now), (js ''title'', JStr t),
           (js ''created_at'', JStr (js ''2026-01-01T00:00:00.000Z'')),
           (js ''result'', sample_data)]"

definition offline_env :: env where
  "offline_env =
     \<lparr>fetch = (\<lambda>req. Inl (TypeError (js ''Failed to fetch''))), Date_now = 7,
      toISOString = js ''2026-01-01T00:00:00.000Z''\<rparr>"

definition error_env :: "jstring \<Rightarrow> env" where
  "error_env t =
     \<lparr>fetch = (\<lambda>req. Inr \<lparr>ok = False, content_type = Some (js ''application/json''),
                             body_text = Inr t\<rparr>),
      Date_now = 7, toISOString = js ''2026-01-01T00:00:00.000Z''\<rparr>"



definition hostile_host :: host where
  "hostile_host =
     \<lparr>window_APP_API_BASE = Some (Throws (JsError (js ''Error'') (js ''denied''))),
      globalThis_process = Some (Value (Throws (JsError (js ''Error'') (js ''no env''))))\<rparr>"

definition override_host :: host where
  "override_host =
     \<lparr>window_APP_API_BASE = Some (Value (js ''http://injected:1'')), globalThis_process = None\<rparr>"

section \<open>JSON round trip\<close>

subsection \<open>Numbers\<close>

declare digits.simps [simp del]
declare strip_zeros.simps [simp del]

lemma unat_of_nat16: "m < 65536 \<Longrightarrow> unat (of_nat m :: 16 word) = m"
  by (simp add: unat_of_nat)

lemma digit_unit:
  assumes "d < 10"
  shows "is_digit (digit d)" and "unat (digit d) - 48 = d"
    and "(digit d) = 0x30 \<longleftrightarrow> d = 0"
    and "(digit d) \<noteq> 0x2D"
proof -
  have u: "unat (digit d) = 48 + d"
    unfolding digit_def by (rule unat_of_nat16) (use assms in linarith)
  have k: "unat (0x30 :: 16 word) = 48" "unat (0x39 :: 16 word) = 57" "unat (0x2D :: 16 word) = 45"
    by simp_all
  show "is_digit (digit d)"
    unfolding is_digit_def word_le_nat_alt u k using assms by linarith
  show "unat (digit d) - 48 = d"
    unfolding u by simp
  show "(digit d) = 0x30 \<longleftrightarrow> d = 0"
    unfolding word_unat_eq_iff u k by linarith
  show "(digit d) \<noteq> 0x2D"
    unfolding word_unat_eq_iff u k by linarith
qed

lemma is_digit_not_punct:
  "is_digit c \<Longrightarrow> c \<noteq> 0x2D \<and> c \<noteq> 0x2E \<and> c \<noteq> 0x65 \<and> c \<noteq> 0x45 \<and> c \<noteq> 0x2B"
  by (auto simp: is_digit_def)

lemma scan_digits_run:
  "list_all is_digit ds \<Longrightarrow> digits_end rest \<Longrightarrow>
   scan_digits acc cnt (ds @ rest) = (foldl dstep acc ds, cnt + length ds, rest)"
proof (induction ds arbitrary: acc cnt)
  case Nil
  then show ?case by (cases rest) (simp_all add: digits_end_def)
next
  case (Cons c cs)
  then show ?case by simp
qed

lemma digits_all_digit: "list_all is_digit (digits n)"
proof (induction n rule: digits.induct)
  case (1 n)
  show ?case
  proof (cases "n < 10")
    case True
    then show ?thesis using digit_unit(1) [OF True] by (simp add: digits.simps)
  next
    case False
    have m: "n mod 10 < 10" by simp
    have "digits n = digits (n div 10) @ [digit (n mod 10)]"
      using False by (subst digits.simps) simp
    then show ?thesis using 1 [OF False] digit_unit(1) [OF m] by simp
  qed
qed

lemma foldl_digits: "foldl dstep acc (digits n) = acc * 10 ^ length (digits n) + n"
proof (induction n arbitrary: acc rule: digits.induct)
  case (1 n)
  show ?case
  proof (cases "n < 10")
    case True
    then show ?thesis using digit_unit(2) [OF True] by (simp add: digits.simps dstep_def)
  next
    case False
    have m: "n mod 10 < 10" by simp
    have d: "digits n = digits (n div 10) @ [digit (n mod 10)]"
      using False by (subst digits.simps) simp
    have "foldl dstep acc (digits n) =
          dstep (acc * 10 ^ length (digits (n div 10)) + n div 10) (digit (n mod 10))"
      unfolding d using 1 [OF False, of acc] by simp
    also have "\<dots> = (acc * 10 ^ length (digits (n div 10)) + n div 10) * 10 + n mod 10"
      using digit_unit(2) [OF m] by (simp add: dstep_def)
    also have "\<dots> = acc * 10 ^ length (digits n) + n"
      unfolding d by (simp add: algebra_simps)
    finally show ?thesis .
  qed
qed

lemma foldl_zeros: "foldl dstep acc (replicate j 0x30) = acc * 10 ^ j"
  by (induction j arbitrary: acc) (simp_all add: dstep_def)

lemma is_digit_zero: "is_digit 0x30"
  by (simp add: is_digit_def)

lemma digits_first:
  "\<exists>d t. d < 10 \<and> digits n = digit d # t \<and> (d = 0 \<longrightarrow> n = 0 \<and> t = [])"
proof (induction n rule: digits.induct)
  case (1 n)
  show ?case
  proof (cases "n < 10")
    case True
    then have "digits n = [digit n]" by (simp add: digits.simps)
    with True show ?thesis by blast
  next
    case False
    then have d: "digits n = digits (n div 10) @ [digit (n mod 10)]"
      by (subst digits.simps) simp
    from 1 [OF False] obtain e t where
      e: "e < 10" "digits (n div 10) = digit e # t" "e = 0 \<longrightarrow> n div 10 = 0 \<and> t = []"
      by blast
    from False have "n div 10 \<noteq> 0" by simp
    with e have "e \<noteq> 0" by blast
    with e d show ?thesis by (metis append_Cons)
  qed
qed

lemma digits_head:
  assumes "n \<noteq> 0"
  shows "\<exists>c t. digits n = c # t \<and> is_digit c \<and> c \<noteq> 0x30"
proof -
  obtain d t where d: "d < 10" "digits n = digit d # t" "d = 0 \<longrightarrow> n = 0 \<and> t = []"
    using digits_first by blast
  with assms have "d \<noteq> 0" by blast
  then show ?thesis using d digit_unit(1,3) [OF d(1)] by blast
qed

lemma strip_zeros_step:
  "a \<noteq> 0 \<Longrightarrow> a mod 10 = 0 \<Longrightarrow>
   strip_zeros a = (case strip_zeros (a div 10) of (m, z) \<Rightarrow> (m, Suc z))"
  by (subst strip_zeros.simps) simp

lemma strip_zeros_stop: "a = 0 \<or> a mod 10 \<noteq> 0 \<Longrightarrow> strip_zeros a = (a, 0)"
  by (subst strip_zeros.simps) auto

lemma strip_zeros_mult:
  assumes "m mod 10 \<noteq> 0"
  shows "strip_zeros (m * 10 ^ j) = (m, j)"
proof (induction j)
  case 0
  then show ?case using assms by (simp add: strip_zeros_stop)
next
  case (Suc j)
  from assms have "m \<noteq> 0" by (cases m) auto
  then have a: "m * 10 ^ Suc j \<noteq> 0" by simp
  have b: "(m * 10 ^ Suc j) mod 10 = 0" by simp
  have c: "(m * 10 ^ Suc j) div 10 = m * 10 ^ j" by simp
  show ?case
    unfolding strip_zeros_step [OF a b] c Suc by simp
qed

lemma strip_zeros_correct:
  "a \<noteq> 0 \<Longrightarrow> strip_zeros a = (m, z) \<Longrightarrow> a = m * 10 ^ z \<and> m mod 10 \<noteq> 0"
proof (induction a arbitrary: m z rule: strip_zeros.induct)
  case (1 a)
  show ?case
  proof (cases "a mod 10 = 0")
    case True
    obtain m' z' where s: "strip_zeros (a div 10) = (m', z')" by (cases "strip_zeros (a div 10)")
    have split: "a = a div 10 * 10" using True by (simp add: mod_eq_0_iff_dvd)
    with 1(2) have nz: "a div 10 \<noteq> 0" by linarith
    have ih: "a div 10 = m' * 10 ^ z' \<and> m' mod 10 \<noteq> 0"
      using 1(1) [of m' z'] 1(2) True nz s by blast
    have "strip_zeros a = (m', Suc z')"
      using strip_zeros_step [OF 1(2) True] s by simp
    with 1(3) have "m = m'" "z = Suc z'" by simp_all
    then show ?thesis using ih split by (metis mult.assoc mult.commute power_Suc)
  next
    case False
    then have "strip_zeros a = (a, 0)" by (simp add: strip_zeros_stop)
    with 1(3) have "m = a" "z = 0" by simp_all
    with False show ?thesis by simp
  qed
qed

lemma digits_end_simps [simp]:
  "digits_end []" "digits_end (0x2E # r)" "digits_end (0x65 # r)"
  by (simp_all add: digits_end_def is_digit_def)

lemma no_digit_ahead_digits_end: "no_digit_ahead rest \<Longrightarrow> digits_end rest"
  by (cases rest) (simp_all add: no_digit_ahead_def digits_end_def)

lemma parse_int_part_run:
  assumes "list_all is_digit (c # t)" and "c \<noteq> 0x30" and "digits_end rest"
  shows "parse_int_part ((c # t) @ rest) = Some (foldl dstep 0 (c # t), rest)"
proof -
  have "scan_digits 0 0 ((c # t) @ rest) = (foldl dstep 0 (c # t), 0 + length (c # t), rest)"
    by (rule scan_digits_run [OF assms(1,3)])
  moreover have "is_digit c" using assms(1) by simp
  ultimately show ?thesis using assms(2) by (simp del: scan_digits.simps foldl_Cons)
qed

lemma parse_frac_part_none:
  "no_digit_ahead rest \<Longrightarrow> parse_frac_part a rest = Some (a, 0, rest)"
  by (cases rest) (simp_all add: no_digit_ahead_def)

lemma parse_frac_part_exp: "parse_frac_part a (0x65 # r) = Some (a, 0, 0x65 # r)"
  by simp

lemma parse_frac_part_run:
  assumes "list_all is_digit ds" and "ds \<noteq> []" and "digits_end rest"
  shows "parse_frac_part a (0x2E # ds @ rest) = Some (foldl dstep a ds, length ds, rest)"
proof -
  have "scan_digits a 0 (ds @ rest) = (foldl dstep a ds, 0 + length ds, rest)"
    by (rule scan_digits_run [OF assms(1,3)])
  then show ?thesis using assms(2) by simp
qed

lemma parse_exp_part_none:
  "no_digit_ahead rest \<Longrightarrow> parse_exp_part rest = Some (0, rest)"
  by (cases rest) (simp_all add: no_digit_ahead_def)

lemma parse_exp_part_digits:
  assumes "digits_end rest"
  shows "parse_exp_part (0x65 # (if neg then 0x2D else 0x2B) # digits y @ rest) =
         Some (if neg then - int y else int y, rest)"
proof -
  have s: "scan_digits 0 0 (digits y @ rest) = (foldl dstep 0 (digits y), 0 + length (digits y), rest)"
    by (rule scan_digits_run [OF digits_all_digit assms])
  obtain c t where "digits y = c # t" using digits_first [of y] by blast
  then have l: "length (digits y) \<noteq> 0" by simp
  have v: "foldl dstep 0 (digits y) = y" by (simp add: foldl_digits)
  show ?thesis
    using s l v by (simp del: scan_digits.simps)
qed

lemma parse_exp_part_run:
  assumes "digits_end rest"
  shows "parse_exp_part (0x65 # (if x < 0 then 0x2D else 0x2B) # digits (nat \<bar>x\<bar>) @ rest) =
         Some (x, rest)"
proof -
  have "(if x < 0 then - int (nat \<bar>x\<bar>) else int (nat \<bar>x\<bar>)) = x" by simp
  then show ?thesis
    using parse_exp_part_digits [OF assms, of "x < 0" "nat \<bar>x\<bar>"] by (simp only:)
qed

lemma parse_number_parts:
  assumes "is_digit c"
    and "parse_int_part (c # t) = Some (a0, r1)"
    and "parse_frac_part a0 r1 = Some (a, cnt, r2)"
    and "parse_exp_part r2 = Some (x, r3)"
  shows "parse_number ((if neg then [0x2D] else []) @ c # t) =
         Some (make_number neg a (x - int cnt), r3)"
proof -
  have "c \<noteq> 0x2D" using assms(1) is_digit_not_punct by blast
  then have "parse_sign ((if neg then [0x2D] else []) @ c # t) = (neg, c # t)" by simp
  then show ?thesis
    using assms(2-4) by (simp add: parse_number_def del: parse_int_part.simps)
qed

lemma make_number_scaled:
  assumes "m mod 10 \<noteq> 0"
  shows "make_number neg (m * 10 ^ j) x = make_number neg m (int j + x)"
proof -
  from assms have "m \<noteq> 0" by (cases m) auto
  moreover have "strip_zeros m = (m, 0)" using strip_zeros_mult [OF assms, of 0] by simp
  ultimately show ?thesis
    by (simp add: make_number_def strip_zeros_mult [OF assms])
qed

declare parse_int_part.simps [simp del]
declare parse_frac_part.simps [simp del]
declare parse_exp_part.simps [simp del]
declare scan_digits.simps [simp del]

lemma parse_number_format:
  assumes m: "m mod 10 \<noteq> 0" and rest: "no_digit_ahead rest"
  shows "parse_number ((if neg then [0x2D] else []) @ Number_format m e @ rest) =
         Some (make_number neg m e, rest)"
proof -
  from m have m0: "m \<noteq> 0" by (cases m) auto
  define ds where "ds = digits m"
  define k where "k = int (length ds)"
  define n where "n = k + e"
  obtain c t where ct: "ds = c # t" "is_digit c" "c \<noteq> 0x30"
    using digits_head [OF m0] unfolding ds_def by blast
  have all: "list_all is_digit ds" unfolding ds_def by (rule digits_all_digit)
  have val: "foldl dstep a ds = a * 10 ^ length ds + m" for a
    unfolding ds_def by (rule foldl_digits)
  have k1: "1 \<le> k" unfolding k_def ct by simp
  have de: "digits_end rest" by (rule no_digit_ahead_digits_end [OF rest])
  have fmt: "Number_format m e =
     (if - 5 \<le> n \<and> n \<le> 21 then
        (if k \<le> n then ds @ replicate (nat (n - k)) 0x30
         else if 0 < n then take (nat n) ds @ 0x2E # drop (nat n) ds
         else [0x30, 0x2E] @ replicate (nat (- n)) 0x30 @ ds)
      else
        take 1 ds @ (if k = 1 then [] else 0x2E # drop 1 ds) @
        0x65 # (if n - 1 < 0 then 0x2D else 0x2B) # digits (nat \<bar>n - 1\<bar>))"
    by (simp add: Number_format_def Let_def ds_def k_def n_def)
  consider (a) "- 5 \<le> n" "n \<le> 21" "k \<le> n"
    | (b) "- 5 \<le> n" "n \<le> 21" "n < k" "0 < n"
    | (c) "- 5 \<le> n" "n \<le> 0"
    | (d) "n < - 5 \<or> 21 < n"
    using k1 by linarith
  then show ?thesis
  proof cases
    case a
    define j where "j = nat (n - k)"
    have body: "Number_format m e @ rest = (c # t @ replicate j 0x30) @ rest"
      using a by (simp add: fmt j_def ct)
    have dig: "list_all is_digit (c # t @ replicate j 0x30)"
      using all by (auto simp: ct is_digit_zero list_all_iff)
    have "foldl dstep 0 (c # t @ replicate j 0x30) = foldl dstep (foldl dstep 0 ds) (replicate j 0x30)"
      by (simp add: ct)
    also have "\<dots> = m * 10 ^ j" by (simp add: foldl_zeros val)
    finally have v: "foldl dstep 0 (c # t @ replicate j 0x30) = m * 10 ^ j" .
    have p1: "parse_int_part ((c # t @ replicate j 0x30) @ rest) = Some (m * 10 ^ j, rest)"
      using parse_int_part_run [OF dig ct(3) de] v by (simp only:)
    have p1': "parse_int_part (c # (t @ replicate j 0x30) @ rest) = Some (m * 10 ^ j, rest)"
      using p1 by simp
    have "parse_number ((if neg then [0x2D] else []) @ c # (t @ replicate j 0x30) @ rest) =
          Some (make_number neg (m * 10 ^ j) (0 - int 0), rest)"
      by (rule parse_number_parts [OF ct(2) p1' parse_frac_part_none [OF rest]
            parse_exp_part_none [OF rest]])
    moreover have "int j = e" using a by (simp add: j_def n_def)
    ultimately show ?thesis
      using make_number_scaled [OF m, of neg j 0] by (simp add: body)
  next
    case b
    define p where "p = nat n"
    have p: "0 < p" "p < length ds" using b by (simp_all add: p_def k_def)
    obtain t' where tk: "take p ds = c # t'" using p(1) by (cases p) (auto simp: ct)
    have body: "Number_format m e @ rest = (c # t') @ (0x2E # drop p ds @ rest)"
      using b by (simp add: fmt p_def [symmetric] tk)
    have d1: "list_all is_digit (c # t')"
      using all unfolding tk [symmetric] list_all_iff by (auto dest: in_set_takeD)
    have d2: "list_all is_digit (drop p ds)"
      using all unfolding list_all_iff by (auto dest: in_set_dropD)
    have ne: "drop p ds \<noteq> []" using p(2) by simp
    have p1: "parse_int_part ((c # t') @ (0x2E # drop p ds @ rest)) =
              Some (foldl dstep 0 (take p ds), 0x2E # drop p ds @ rest)"
      using parse_int_part_run [OF d1 ct(3), of "0x2E # drop p ds @ rest"] by (simp add: tk)
    have p2: "parse_frac_part (foldl dstep 0 (take p ds)) (0x2E # drop p ds @ rest) =
              Some (foldl dstep (foldl dstep 0 (take p ds)) (drop p ds), length (drop p ds), rest)"
      by (rule parse_frac_part_run [OF d2 ne de])
    have "foldl dstep (foldl dstep 0 (take p ds)) (drop p ds) = foldl dstep 0 (take p ds @ drop p ds)"
      by (simp only: foldl_append)
    then have v: "foldl dstep (foldl dstep 0 (take p ds)) (drop p ds) = m"
      by (simp add: val)
    have p1': "parse_int_part (c # t' @ (0x2E # drop p ds @ rest)) =
              Some (foldl dstep 0 (take p ds), 0x2E # drop p ds @ rest)"
      using p1 by simp
    have p2': "parse_frac_part (foldl dstep 0 (take p ds)) (0x2E # drop p ds @ rest) =
              Some (m, length (drop p ds), rest)"
      using p2 unfolding v .
    have "parse_number ((if neg then [0x2D] else []) @ c # t' @ (0x2E # drop p ds @ rest)) =
          Some (make_number neg m (0 - int (length (drop p ds))), rest)"
      by (rule parse_number_parts [OF ct(2) p1' p2' parse_exp_part_none [OF rest]])
    moreover have "0 - int (length (drop p ds)) = e"
      using b p by (simp add: p_def n_def k_def)
    ultimately show ?thesis by (simp add: body)
  next
    case c
    define z where "z = nat (- n)"
    have body: "Number_format m e @ rest = 0x30 # 0x2E # (replicate z 0x30 @ ds) @ rest"
      using c k1 by (simp add: fmt z_def)
    have d: "list_all is_digit (replicate z 0x30 @ ds)"
      using all by (auto simp: is_digit_zero list_all_iff)
    have ne: "replicate z 0x30 @ ds \<noteq> []" by (simp add: ct)
    have p1: "parse_int_part (0x30 # 0x2E # (replicate z 0x30 @ ds) @ rest) =
              Some (0, 0x2E # (replicate z 0x30 @ ds) @ rest)"
      by (simp add: parse_int_part.simps)
    have p2: "parse_frac_part 0 (0x2E # (replicate z 0x30 @ ds) @ rest) =
              Some (foldl dstep 0 (replicate z 0x30 @ ds), length (replicate z 0x30 @ ds), rest)"
      by (rule parse_frac_part_run [OF d ne de])
    have v: "foldl dstep 0 (replicate z 0x30 @ ds) = m"
      by (simp add: foldl_zeros val)
    have p2': "parse_frac_part 0 (0x2E # (replicate z 0x30 @ ds) @ rest) =
              Some (m, length (replicate z 0x30 @ ds), rest)"
      using p2 unfolding v .
    have "parse_number ((if neg then [0x2D] else []) @ 0x30 # 0x2E # (replicate z 0x30 @ ds) @ rest) =
          Some (make_number neg m (0 - int (length (replicate z 0x30 @ ds))), rest)"
      by (rule parse_number_parts [OF is_digit_zero p1 p2' parse_exp_part_none [OF rest]])
    moreover have "0 - int (length (replicate z 0x30 @ ds)) = e"
      using c by (simp add: z_def n_def k_def)
    ultimately show ?thesis by (simp add: body)
  next
    case d
    define x where "x = n - 1"
    define tail where "tail = 0x65 # (if x < 0 then 0x2D else 0x2B) # digits (nat \<bar>x\<bar>) @ rest"
    have pe: "parse_exp_part tail = Some (x, rest)"
      unfolding tail_def by (rule parse_exp_part_run [OF de])
    have te: "digits_end tail" by (simp add: tail_def)
    have nd: "\<not> (- 5 \<le> n \<and> n \<le> 21)" using d by linarith
    show ?thesis
    proof (cases "k = 1")
      case True
      then have t: "t = []" by (simp add: k_def ct)
      have body: "Number_format m e @ rest = [c] @ tail"
        using True by (simp only: fmt nd if_False) (simp add: ct t tail_def x_def)
      have dc: "list_all is_digit [c]" using ct(2) by simp
      have "foldl dstep 0 [c] = m" using val [of 0] by (simp add: ct t)
      then have p1: "parse_int_part ([c] @ tail) = Some (m, tail)"
        using parse_int_part_run [OF dc ct(3) te] by (simp only:)
      have p2: "parse_frac_part m tail = Some (m, 0, tail)"
        unfolding tail_def by (rule parse_frac_part_exp)
      have p1': "parse_int_part (c # tail) = Some (m, tail)" using p1 by simp
      have "parse_number ((if neg then [0x2D] else []) @ c # tail) =
            Some (make_number neg m (x - int 0), rest)"
        by (rule parse_number_parts [OF ct(2) p1' p2 pe])
      moreover have "x - int 0 = e" using True by (simp add: x_def n_def)
      ultimately show ?thesis by (simp add: body)
    next
      case False
      then have tne: "t \<noteq> []" using k1 by (auto simp: k_def ct)
      have body: "Number_format m e @ rest = [c] @ (0x2E # t @ tail)"
        using False by (simp only: fmt nd if_False) (simp add: ct tail_def x_def)
      have dc: "list_all is_digit [c]" using ct(2) by simp
      have dt: "list_all is_digit t" using all by (simp add: ct)
      have p1: "parse_int_part ([c] @ (0x2E # t @ tail)) = Some (foldl dstep 0 [c], 0x2E # t @ tail)"
        by (rule parse_int_part_run [OF dc ct(3)]) simp
      have p2: "parse_frac_part (foldl dstep 0 [c]) (0x2E # t @ tail) =
                Some (foldl dstep (foldl dstep 0 [c]) t, length t, tail)"
        by (rule parse_frac_part_run [OF dt tne te])
      have v: "foldl dstep (foldl dstep 0 [c]) t = m"
        using val [of 0] by (simp add: ct)
      have p1': "parse_int_part (c # (0x2E # t @ tail)) = Some (foldl dstep 0 [c], 0x2E # t @ tail)"
        using p1 by simp
      have p2': "parse_frac_part (foldl dstep 0 [c]) (0x2E # t @ tail) = Some (m, length t, tail)"
        using p2 unfolding v .
      have "parse_number ((if neg then [0x2D] else []) @ c # (0x2E # t @ tail)) =
            Some (make_number neg m (x - int (length t)), rest)"
        by (rule parse_number_parts [OF ct(2) p1' p2' pe])
      moreover have "x - int (length t) = e" by (simp add: x_def n_def k_def ct)
      ultimately show ?thesis by (simp add: body)
    qed
  qed
qed

lemma parse_number_text:
  assumes "a = 0 \<longrightarrow> \<not> neg" and "no_digit_ahead rest"
  shows "parse_number (number_text neg a x @ rest) = Some (make_number neg a x, rest)"
proof (cases "a = 0")
  case True
  have "parse_int_part (0x30 # rest) = Some (0, rest)" by (simp add: parse_int_part.simps)
  then have "parse_number ((if False then [0x2D] else []) @ 0x30 # rest) =
        Some (make_number False 0 (0 - int 0), rest)"
    by (rule parse_number_parts [OF is_digit_zero _ parse_frac_part_none [OF assms(2)]
          parse_exp_part_none [OF assms(2)]])
  then show ?thesis
    using True assms(1) by (simp add: number_text_def make_number_def)
next
  case False
  obtain m z where s: "strip_zeros a = (m, z)" by (cases "strip_zeros a")
  from strip_zeros_correct [OF False s] have m: "a = m * 10 ^ z" "m mod 10 \<noteq> 0" by simp_all
  have "make_number neg a x = make_number neg m (int z + x)"
    unfolding m(1) by (rule make_number_scaled [OF m(2)])
  then show ?thesis
    using False s parse_number_format [OF m(2) assms(2), of neg "int z + x"]
    by (simp add: number_text_def)
qed

lemma number_text_head:
  "\<exists>c t. number_text neg a x = c # t \<and> (c = 0x2D \<or> is_digit c)"
proof (cases "a = 0")
  case True
  then show ?thesis by (simp add: number_text_def is_digit_zero)
next
  case False
  obtain m z where s: "strip_zeros a = (m, z)" by (cases "strip_zeros a")
  from strip_zeros_correct [OF False s] have "m mod 10 \<noteq> 0" by simp
  then have m0: "m \<noteq> 0" by (cases m) auto
  obtain c t where ct: "digits m = c # t" "is_digit c" using digits_head [OF m0] by blast
  have "\<exists>c' t'. Number_format m e = c' # t' \<and> is_digit c'" for e
    using ct by (auto simp: Number_format_def Let_def is_digit_zero take_Cons' split: if_splits)
  then obtain c' t' where f: "Number_format m (int z + x) = c' # t'" "is_digit c'" by blast
  show ?thesis
    using False s f by (cases neg) (simp_all add: number_text_def)
qed

subsection \<open>Strings\<close>

lemma unat_hex_digit:
  assumes "n < 16"
  shows "unat (hex_digit n) = (if n < 10 then 48 + n else 87 + n)"
proof -
  have a: "unat (of_nat (48 + n) :: 16 word) = 48 + n"
    by (rule unat_of_nat16) (use assms in linarith)
  have b: "unat (of_nat (87 + n) :: 16 word) = 87 + n"
    by (rule unat_of_nat16) (use assms in linarith)
  show ?thesis
  proof (cases "n < 10")
    case True
    then show ?thesis unfolding hex_digit_def using a by (simp only: if_True)
  next
    case False
    then show ?thesis unfolding hex_digit_def using b by (simp only: if_False)
  qed
qed

lemma hex_val_hex_digit:
  assumes "n < 16"
  shows "hex_val (hex_digit n) = Some n"
proof -
  have k: "unat (0x30 :: 16 word) = 48" "unat (0x39 :: 16 word) = 57"
    "unat (0x61 :: 16 word) = 97" "unat (0x66 :: 16 word) = 102"
    "unat (0x41 :: 16 word) = 65" "unat (0x46 :: 16 word) = 70"
    by simp_all
  show ?thesis
    unfolding hex_val_def word_le_nat_alt k unat_hex_digit [OF assms]
    using assms by auto
qed

lemma hex_recompose:
  "(x::nat) div 4096 * 4096 + x div 256 mod 16 * 256 + x div 16 mod 16 * 16 + x mod 16 = x"
proof -
  have a: "x div 256 = x div 16 div 16" and b: "x div 4096 = x div 16 div 16 div 16"
    by (simp_all add: div_mult2_eq [symmetric])
  have c: "x div 16 div 16 div 16 * 16 + x div 16 div 16 mod 16 = x div 16 div 16"
    and d: "x div 16 div 16 * 16 + x div 16 mod 16 = x div 16"
    and e: "x div 16 * 16 + x mod 16 = x"
    by simp_all
  show ?thesis unfolding a b using c d e by linarith
qed

lemma hex4_unicode_escape:
  "hex4 (hex_digit (unat c div 4096)) (hex_digit (unat c div 256 mod 16))
        (hex_digit (unat c div 16 mod 16)) (hex_digit (unat c mod 16)) = Some c"
proof -
  have "unat c < 65536" using unsigned_less [of c] by simp
  then have a: "unat c div 4096 < 16" by simp
  have "hex4 (hex_digit (unat c div 4096)) (hex_digit (unat c div 256 mod 16))
        (hex_digit (unat c div 16 mod 16)) (hex_digit (unat c mod 16)) =
        Some (of_nat (unat c div 4096 * 4096 + unat c div 256 mod 16 * 256 + unat c div 16 mod 16 * 16 + unat c mod 16))"
    unfolding hex4_def by (simp only: hex_val_hex_digit a mod_less_divisor zero_less_numeral prod.case option.case)
  then show ?thesis
    by (simp only: hex_recompose of_nat_unat ucast_id)
qed

lemma parse_chars_unicode_escape:
  "parse_chars (unicode_escape c @ rest) = cons_fst c (parse_chars rest)"
  by (simp add: unicode_escape_def hex4_unicode_escape)

lemma parse_chars_quote_unit:
  "parse_chars (quote_unit c @ rest) = cons_fst c (parse_chars rest)"
  unfolding quote_unit_def
  by (simp add: parse_chars_unicode_escape del: parse_chars.simps)
     (simp)

lemma parse_chars_plain:
  "c \<noteq> 0x22 \<Longrightarrow> c \<noteq> 0x5C \<Longrightarrow> \<not> c < 0x20 \<Longrightarrow>
   parse_chars (c # rest) = cons_fst c (parse_chars rest)"
  by simp

lemma high_surrogate_plain:
  "is_high_surrogate c \<Longrightarrow> c \<noteq> 0x22 \<and> c \<noteq> 0x5C \<and> \<not> c < 0x20"
  unfolding is_high_surrogate_def by (auto simp: word_le_nat_alt word_less_nat_alt)

lemma low_surrogate_plain:
  "is_low_surrogate c \<Longrightarrow> c \<noteq> 0x22 \<and> c \<noteq> 0x5C \<and> \<not> c < 0x20"
  unfolding is_low_surrogate_def by (auto simp: word_le_nat_alt word_less_nat_alt)

lemma parse_chars_quote_chars:
  "parse_chars (quote_chars s @ 0x22 # rest) = Some (s, rest)"
proof (induction s rule: quote_chars.induct)
  case 1
  show ?case by simp
next
  case (2 c)
  show ?case
    by (simp only: quote_chars.simps parse_chars_quote_unit) (simp add: cons_fst_def)
next
  case (3 c d ds)
  show ?case
  proof (cases "is_high_surrogate c \<and> is_low_surrogate d")
    case True
    with 3 have ih: "parse_chars (quote_chars ds @ 0x22 # rest) = Some (ds, rest)" by simp
    from True have "quote_chars (c # d # ds) = c # d # quote_chars ds" by simp
    then show ?thesis
      using True high_surrogate_plain [of c] low_surrogate_plain [of d] ih
      by (simp add: parse_chars_plain cons_fst_def del: parse_chars.simps)
  next
    case False
    with 3 have ih: "parse_chars (quote_chars (d # ds) @ 0x22 # rest) = Some (d # ds, rest)"
      by simp
    from False have "quote_chars (c # d # ds) = quote_unit c @ quote_chars (d # ds)" by auto
    then show ?thesis
      using ih by (simp add: parse_chars_quote_unit cons_fst_def del: parse_chars.simps)
  qed
qed

subsection \<open>Values\<close>

lemma number_head:
  "c = 0x2D \<or> is_digit c \<Longrightarrow>
   c \<noteq> 0x5B \<and> c \<noteq> 0x7B \<and> c \<noteq> 0x22 \<and> c \<noteq> 0x6E \<and> c \<noteq> 0x74 \<and> c \<noteq> 0x66 \<and>
   c \<noteq> 0x5D \<and> c \<noteq> 0x7D \<and> \<not> is_ws c"
  by (auto simp: is_digit_def is_ws_def)

lemma stringify_head:
  "\<exists>c t. JSON_stringify v = c # t \<and> \<not> is_ws c \<and> c \<noteq> 0x5D \<and> c \<noteq> 0x7D"
proof (cases v)
  case (JNum i)
  then show ?thesis using number_text_head [of "i < 0" "nat \<bar>i\<bar>" 0] number_head by auto
next
  case (JFrac m d)
  then show ?thesis using number_text_head [of "m < 0" "nat \<bar>m\<bar>" "- int d"] number_head by auto
qed (auto simp: js_def is_ws_def)

lemma stringify_elems_head:
  assumes "xs \<noteq> []"
  shows "\<exists>c t. stringify_elems xs = c # t \<and> \<not> is_ws c \<and> c \<noteq> 0x5D"
proof -
  from assms obtain x ys where xs: "xs = x # ys" by (cases xs) auto
  obtain c t where c: "JSON_stringify x = c # t" "\<not> is_ws c" "c \<noteq> 0x5D"
    using stringify_head by blast
  have "stringify_elems xs = c # (t @ (if ys = [] then [0x5D] else 0x2C # stringify_elems ys))"
    by (simp add: xs c(1))
  with c show ?thesis by blast
qed

lemma parse_value_number:
  assumes "a = 0 \<longrightarrow> \<not> neg" and "no_digit_ahead rest"
  shows "parse_value (Suc f) (number_text neg a x @ rest) = Some (make_number neg a x, rest)"
proof -
  obtain c t where c: "number_text neg a x = c # t" "c = 0x2D \<or> is_digit c"
    using number_text_head by blast
  have "parse_value (Suc f) ((c # t) @ rest) = parse_number ((c # t) @ rest)"
    using number_head [OF c(2)] by simp
  then show ?thesis
    using parse_number_text [OF assms, of x] by (simp add: c(1))
qed

lemma parse_value_string:
  "parse_value (Suc f) (0x22 # quote_chars s @ 0x22 # rest) = Some (JStr s, rest)"
  by (simp add: is_ws_def parse_chars_quote_chars del: parse_chars.simps)

lemma no_digit_ahead_simps [simp]:
  "no_digit_ahead []" "no_digit_ahead (0x5D # r)" "no_digit_ahead (0x7D # r)"
  "no_digit_ahead (0x2C # r)"
  by (simp_all add: no_digit_ahead_def is_digit_def)

lemma parse_stringify:
  "length (JSON_stringify v) \<le> f \<Longrightarrow> no_digit_ahead rest \<Longrightarrow>
     parse_value f (JSON_stringify v @ rest) = Some (JSON_image v, rest)"
  "xs \<noteq> [] \<Longrightarrow> length (stringify_elems xs) \<le> f \<Longrightarrow>
     parse_elems f (stringify_elems xs @ rest) = Some (image_elems xs, rest)"
  "ms \<noteq> [] \<Longrightarrow> length (stringify_members ms) \<le> f \<Longrightarrow>
     parse_members f (stringify_members ms @ rest) = Some (image_members ms, rest)"
proof (induction v and xs and ms arbitrary: f rest and f rest and f rest
    rule: JSON_stringify_stringify_elems_stringify_members.induct)
  case 1
  then obtain g where "f = Suc g" by (cases f) (auto simp: js_def)
  then show ?case by (simp add: js_def is_ws_def)
next
  case (2 b)
  then obtain g where "f = Suc g" by (cases f) (auto simp: js_def split: if_splits)
  then show ?case by (simp add: js_def is_ws_def)
next
  case (3 i)
  obtain c t where "number_text (i < 0) (nat \<bar>i\<bar>) 0 = c # t" using number_text_head by blast
  with 3 obtain g where g: "f = Suc g" by (cases f) auto
  have "nat \<bar>i\<bar> = 0 \<longrightarrow> \<not> i < 0" by simp
  from parse_value_number [OF this 3(2), of g 0] show ?case by (simp add: g)
next
  case (4 m d)
  obtain c t where "number_text (m < 0) (nat \<bar>m\<bar>) (- int d) = c # t"
    using number_text_head by blast
  with 4 obtain g where g: "f = Suc g" by (cases f) auto
  have "nat \<bar>m\<bar> = 0 \<longrightarrow> \<not> m < 0" by simp
  from parse_value_number [OF this 4(2), of g "- int d"] show ?case by (simp add: g)
next
  case 5
  then obtain g where g: "f = Suc g" by (cases f) auto
  have "parse_value (Suc g) (number_text False 0 0 @ rest) = Some (make_number False 0 0, rest)"
    by (rule parse_value_number) (simp_all add: 5)
  then show ?case by (simp add: g number_text_def make_number_def signed_zero_def)
next
  case (6 neg)
  then obtain g where "f = Suc g" by (cases f) (auto simp: js_def)
  then show ?case by (simp add: js_def is_ws_def)
next
  case (7 s)
  then obtain g where "f = Suc g" by (cases f) auto
  then show ?case using parse_value_string [of g s rest] by (simp del: parse_value.simps)
next
  case (8 xs)
  then obtain g where g: "f = Suc g" by (cases f) auto
  show ?case
  proof (cases "xs = []")
    case True
    then show ?thesis by (simp add: g is_ws_def)
  next
    case False
    obtain c t where c: "stringify_elems xs = c # t" "\<not> is_ws c" "c \<noteq> 0x5D"
      using stringify_elems_head [OF False] by blast
    have "parse_elems g (stringify_elems xs @ rest) = Some (image_elems xs, rest)"
      using 8 False g by simp
    then show ?thesis
      using c by (simp add: g is_ws_def)
  qed
next
  case (9 ms)
  then obtain g where g: "f = Suc g" by (cases f) auto
  show ?case
  proof (cases "ms = []")
    case True
    then show ?thesis by (simp add: g is_ws_def object_of_def)
  next
    case False
    then obtain k v ns where ms: "ms = (k, v) # ns" by (cases ms) auto
    have "parse_members g (stringify_members ms @ rest) = Some (image_members ms, rest)"
      using 9 False g by simp
    then show ?thesis
      by (simp add: g is_ws_def ms)
  qed
next
  case 10
  then show ?case by simp
next
  case (11 x xs)
  obtain c t where c: "JSON_stringify x = c # t" using stringify_head by blast
  with 11 obtain g where g: "f = Suc g" by (cases f) auto
  let ?tail = "(if xs = [] then [0x5D] else 0x2C # stringify_elems xs) @ rest"
  have len: "length (JSON_stringify x) \<le> g" using 11(4) g by (simp split: if_splits)
  have nd: "no_digit_ahead ?tail" by simp
  have pv: "parse_value g (JSON_stringify x @ ?tail) = Some (JSON_image x, ?tail)"
    using 11(1) [OF len nd] .
  show ?case
  proof (cases "xs = []")
    case True
    then show ?thesis using pv by (simp add: g is_ws_def)
  next
    case False
    have "length (stringify_elems xs) \<le> g" using 11(4) g False by simp
    then have "parse_elems g (stringify_elems xs @ rest) = Some (image_elems xs, rest)"
      using 11(2) [OF False False] by simp
    then show ?thesis using pv False by (simp add: g is_ws_def cons_fst_def)
  qed
next
  case 12
  then show ?case by simp
next
  case (13 k v ms)
  then obtain g where g: "f = Suc g" by (cases f) auto
  let ?tail = "(if ms = [] then [0x7D] else 0x2C # stringify_members ms) @ rest"
  have len: "length (JSON_stringify v) \<le> g" using 13(4) g by (simp split: if_splits)
  have nd: "no_digit_ahead ?tail" by simp
  have pv: "parse_value g (JSON_stringify v @ ?tail) = Some (JSON_image v, ?tail)"
    using 13(1) [OF len nd] .
  have pk: "parse_chars (quote_chars k @ 0x22 # 0x3A # JSON_stringify v @ ?tail) =
            Some (k, 0x3A # JSON_stringify v @ ?tail)"
    by (rule parse_chars_quote_chars)
  show ?case
  proof (cases "ms = []")
    case True
    then show ?thesis using pv pk
      by (simp add: g is_ws_def del: parse_chars.simps)
  next
    case False
    have "length (stringify_members ms) \<le> g" using 13(4) g False by simp
    then have "parse_members g (stringify_members ms @ rest) = Some (image_members ms, rest)"
      using 13(2) [OF False False] by simp
    then show ?thesis using pv pk False
      by (simp add: g is_ws_def cons_fst_def del: parse_chars.simps)
  qed
qed

lemma JSON_parse_stringify: "JSON_parse (JSON_stringify v) = Inr (JSON_image v)"
  using parse_stringify(1) [of v "Suc (length (JSON_stringify v))" "[]"]
  by (simp add: JSON_parse_def)

subsection \<open>Values that come back unchanged\<close>

lemma make_number_int:
  assumes "nat \<bar>i\<bar> < overflow_bound"
  shows "make_number (i < 0) (nat \<bar>i\<bar>) 0 = JNum i"
proof (cases "i = 0")
  case True
  then show ?thesis by (simp add: make_number_def signed_zero_def)
next
  case False
  then have nz: "nat \<bar>i\<bar> \<noteq> 0" by simp
  obtain m z where s: "strip_zeros (nat \<bar>i\<bar>) = (m, z)" by (cases "strip_zeros (nat \<bar>i\<bar>)")
  from strip_zeros_correct [OF nz s] have m: "nat \<bar>i\<bar> = m * 10 ^ z" by simp
  have o: "\<not> overflows m (int z + 0)"
    using assms unfolding m by (simp add: overflows_def)
  have u: "\<not> underflows m (int z + 0)" by (simp add: underflows_def)
  have "int (m * 10 ^ z) = \<bar>i\<bar>" unfolding m [symmetric] by simp
  then have "(if i < 0 then - 1 else 1) * int (m * 10 ^ z) = i" by simp
  then have "finite_number (i < 0) m (int z + 0) = JNum i"
    by (simp add: finite_number_def)
  then show ?thesis
    using nz s o u by (simp add: make_number_def)
qed

lemma make_number_frac:
  assumes "0 < d" and "m mod 10 \<noteq> 0" and "nat \<bar>m\<bar> < overflow_bound * 10 ^ d"
    and "10 ^ d < nat \<bar>m\<bar> * underflow_scale"
  shows "make_number (m < 0) (nat \<bar>m\<bar>) (- int d) = JFrac m d"
proof -
  from assms(2) have m0: "m \<noteq> 0" by auto
  then have nz: "nat \<bar>m\<bar> \<noteq> 0" by simp
  have "(10::nat) dvd nat \<bar>m\<bar> \<longleftrightarrow> int 10 dvd m" by (rule dvd_nat_abs_iff)
  then have "nat \<bar>m\<bar> mod 10 \<noteq> 0"
    using assms(2) by (simp add: mod_eq_0_iff_dvd)
  then have s: "strip_zeros (nat \<bar>m\<bar>) = (nat \<bar>m\<bar>, 0)" by (simp add: strip_zeros_stop)
  have e: "int 0 + - int d < 0" "nat (- (int 0 + - int d)) = d" using assms(1) by simp_all
  have o: "\<not> overflows (nat \<bar>m\<bar>) (int 0 + - int d)"
    using assms(3) e by (simp add: overflows_def)
  have u: "\<not> underflows (nat \<bar>m\<bar>) (int 0 + - int d)"
    using assms(4) e by (simp add: underflows_def)
  have "(if m < 0 then - 1 else 1) * int (nat \<bar>m\<bar>) = m" by simp
  then have "finite_number (m < 0) (nat \<bar>m\<bar>) (int 0 + - int d) = JFrac m d"
    using e by (simp add: finite_number_def)
  then show ?thesis
    using nz s o u by (simp add: make_number_def)
qed

lemma insert_index_last:
  assumes "\<forall>p \<in> set ps. \<exists>j. array_index (fst p) = Some j \<and> j < i"
  shows "insert_index i kv ps = ps @ [kv]"
  using assms by (induction ps) auto

lemma define_property_last:
  assumes "fst kv \<notin> fst ` set ps" and "\<forall>p \<in> set ps. key_before (fst p) (fst kv)"
  shows "define_property ps kv = ps @ [kv]"
proof (cases "array_index (fst kv)")
  case None
  then show ?thesis using assms(1) by (simp add: define_property_def)
next
  case (Some i)
  have "\<forall>p \<in> set ps. \<exists>j. array_index (fst p) = Some j \<and> j < i"
    using assms(2) Some by (auto simp: key_before_def split: option.splits)
  then show ?thesis
    using assms(1) Some by (simp add: define_property_def insert_index_last)
qed

lemma object_of_property_order:
  assumes "property_order (map fst ms)"
  shows "object_of ms = ms"
  using assms
proof (induction ms rule: rev_induct)
  case Nil
  show ?case by (simp add: object_of_def)
next
  case (snoc kv ms)
  from snoc.prems have po: "property_order (map fst ms)"
    and fresh: "fst kv \<notin> fst ` set ms"
    and before: "\<forall>p \<in> set ms. key_before (fst p) (fst kv)"
    by (auto simp: property_order_def sorted_wrt_append)
  have "object_of (ms @ [kv]) = define_property (object_of ms) kv"
    by (simp add: object_of_def)
  then show ?case
    using snoc.IH [OF po] define_property_last [OF fresh before] by simp
qed

lemma map_fst_image_members: "map fst (image_members ms) = map fst ms"
  by (induction ms) auto

lemma JSON_image_well_formed:
  "well_formed v \<Longrightarrow> finite_numbers v \<Longrightarrow> JSON_image v = v"
  "well_formed_elems xs \<Longrightarrow> finite_numbers_elems xs \<Longrightarrow> image_elems xs = xs"
  "well_formed_members ms \<Longrightarrow> finite_numbers_members ms \<Longrightarrow> image_members ms = ms"
proof (induction v and xs and ms rule: JSON_image_image_elems_image_members.induct)
  case (3 i)
  then show ?case by (simp add: make_number_int)
next
  case (4 m d)
  then show ?case by (simp add: make_number_frac)
next
  case (9 ms)
  then have "image_members ms = ms" by simp
  moreover have "property_order (map fst ms)" using 9 by simp
  ultimately show ?case by (simp add: object_of_property_order)
qed simp_all

lemma JSON_parse_stringify_exact:
  "well_formed v \<Longrightarrow> finite_numbers v \<Longrightarrow> JSON_parse (JSON_stringify v) = Inr v"
  by (simp add: JSON_parse_stringify JSON_image_well_formed)

lemma length_image_elems: "length (image_elems xs) = length xs"
  by (induction xs) auto

section \<open>Properties\<close>

subsection \<open>Evaluation on literals\<close>

text \<open>The equations that evaluate \<open>JSON.parse\<close> on a literal text.\<close>

lemmas JSON_eval =
  JSON_parse_def js_def is_ws_def is_digit_def cons_fst_def parse_number_def
  parse_int_part.simps parse_frac_part.simps parse_exp_part.simps scan_digits.simps dstep_def
  make_number_def signed_zero_def strip_zeros.simps overflows_def underflows_def
  overflow_bound_def underflow_scale_def finite_number_def object_of_def define_property_def
  digits_value_def

lemma declares_json_application_json:
  "declares_json \<lparr>ok = b, content_type = Some (js ''application/json''), body_text = t\<rparr>"
  by (simp add: declares_json_def or_else_def js_def)

subsection \<open>The endpoint and the Clear button\<close>

lemma replace_trailing_slash_snoc:
  "replace_trailing_slash (p @ [c]) = (if c = 0x2F then p else p @ [c])"
  by (induction p) auto

lemma replace_trailing_slash_butlast:
  "replace_trailing_slash b = (if b \<noteq> [] \<and> last b = 0x2F then butlast b else b)"
proof (cases b rule: rev_cases)
  case Nil
  then show ?thesis by simp
next
  case (snoc p c)
  then show ?thesis by (simp add: replace_trailing_slash_snoc)
qed

text \<open>
  C7. The submission endpoint is the base URL with one trailing slash removed, if it has
  one, followed by \<open>/feature_request\<close>.
\<close>

theorem endpoint_strips_trailing_slash:
  "endpoint (p @ js ''/'') = p @ js ''/feature_request'' \<and>
   endpoint b = (if b \<noteq> [] \<and> last b = 0x2F then butlast b else b) @ js ''/feature_request''"
proof -
  have "js ''/'' = [0x2F]" by (simp add: js_def)
  then show ?thesis
    by (simp add: endpoint_def replace_trailing_slash_snoc replace_trailing_slash_butlast)
qed

theorem endpoint_example:
  "endpoint (js ''http://h:9000/'') = js ''http://h:9000/feature_request''"
proof -
  have "js ''http://h:9000/'' = js ''http://h:9000'' @ js ''/''" by (simp add: js_def)
  then show ?thesis
    using endpoint_strips_trailing_slash [of "js ''http://h:9000''" "[]"]
    by (simp add: js_def)
qed

text \<open>
  C10. Clear empties the title and the description and resets response and error to
  \<open>null\<close>; the job list, both base URL cells, the token and the loading flag keep their
  values.
\<close>

theorem Clear_resets_form_only:
  "title (Clear st) = [] \<and> description (Clear st) = [] \<and>
   response (Clear st) = JNull \<and> error (Clear st) = JNull \<and>
   jobs (Clear st) = jobs st \<and> apiBase (Clear st) = apiBase st \<and>
   apiBaseInput (Clear st) = apiBaseInput st \<and> apiToken (Clear st) = apiToken st \<and>
   loading (Clear st) = loading st"
  by (simp add: Clear_def)

subsection \<open>Persisting and loading the job list\<close>

lemma stringify_nonempty: "JSON_stringify v \<noteq> []"
  using stringify_head [of v] by auto




lemma well_formed_replicate: "well_formed x \<Longrightarrow> well_formed_elems (replicate n x)"
  by (induction n) auto

lemma finite_numbers_replicate: "finite_numbers x \<Longrightarrow> finite_numbers_elems (replicate n x)"
  by (induction n) auto

lemma well_formed_sample_job: "nat \<bar>now\<bar> < overflow_bound \<Longrightarrow> well_formed (sample_job t now)"
  by (simp add: sample_job_def sample_data_def property_order_def key_before_def js_def
      is_digit_def)

lemma finite_numbers_sample_job: "finite_numbers (sample_job t now)"
  by (simp add: sample_job_def sample_data_def)




text \<open>
  C9. The startup load stores in \<open>jobs\<close> exactly the value that \<open>JSON.parse\<close> returns
  for the text under \<open>ac_jobs\<close>, whatever its shape and length. For the text of a printed
  array that value is the array's image, of the same length, and the array itself when
  its values are well formed without negative zero or infinity; and there is a stored
  array of more than 30 entries for which the loaded list has all of them.
\<close>

theorem load_jobs_unvalidated:
  "(\<not> access_denied sto \<and> items sto (js ''ac_jobs'') = Some saved \<and> saved \<noteq> [] \<and>
      JSON_parse saved = Inr v \<longrightarrow> jobs (load_jobs_effect sto st) = v) \<and>
   (\<not> access_denied sto \<and> items sto (js ''ac_jobs'') = Some (JSON_stringify (JArr xs)) \<longrightarrow>
      jobs (load_jobs_effect sto st) = JArr (image_elems xs) \<and>
      length (image_elems xs) = length xs \<and>
      (well_formed_elems xs \<and> finite_numbers_elems xs \<longrightarrow>
         jobs (load_jobs_effect sto st) = JArr xs)) \<and>
   (\<exists>sto' ys. \<not> access_denied sto' \<and>
      items sto' (js ''ac_jobs'') = Some (JSON_stringify (JArr ys)) \<and> 30 < length ys \<and>
      jobs (load_jobs_effect sto' st) = JArr ys)"
proof -
  have general: "jobs (load_jobs_effect s0 st) = w"
    if "\<not> access_denied s0" "items s0 (js ''ac_jobs'') = Some t" "t \<noteq> []" "JSON_parse t = Inr w"
    for s0 t w
    using that by (simp add: load_jobs_effect_def getItem_def)
  have printed: "jobs (load_jobs_effect s0 st) = JArr (image_elems zs)"
    if "\<not> access_denied s0" "items s0 (js ''ac_jobs'') = Some (JSON_stringify (JArr zs))"
    for s0 zs
    using general [OF that stringify_nonempty JSON_parse_stringify] by simp
  have exact: "jobs (load_jobs_effect s0 st) = JArr zs"
    if "\<not> access_denied s0" "items s0 (js ''ac_jobs'') = Some (JSON_stringify (JArr zs))"
      "well_formed_elems zs" "finite_numbers_elems zs"
    for s0 zs
    using printed [OF that(1,2)] JSON_image_well_formed(2) [OF that(3,4)] by simp
  let ?ys = "replicate 31 (sample_job (js ''a'') 1)"
  let ?sto = "empty_storage\<lparr>items := [js ''ac_jobs'' \<mapsto> JSON_stringify (JArr ?ys)]\<rparr>"
  have sto: "\<not> access_denied ?sto" "items ?sto (js ''ac_jobs'') = Some (JSON_stringify (JArr ?ys))"
    and len: "30 < length ?ys"
    by (simp_all add: empty_storage_def)
  have "well_formed (sample_job (js ''a'') 1)"
    by (rule well_formed_sample_job) (simp add: overflow_bound_def)
  then have "well_formed_elems ?ys" "finite_numbers_elems ?ys"
    by (simp_all only: well_formed_replicate finite_numbers_replicate finite_numbers_sample_job)
  from exact [OF sto this] have "jobs (load_jobs_effect ?sto st) = JArr ?ys" .
  with sto len have "\<exists>sto' ys. \<not> access_denied sto' \<and>
      items sto' (js ''ac_jobs'') = Some (JSON_stringify (JArr ys)) \<and> 30 < length ys \<and>
      jobs (load_jobs_effect sto' st) = JArr ys"
    by blast
  then show ?thesis
    using general [of sto saved v] printed [of sto xs] exact [of sto xs] length_image_elems [of xs]
    by blast
qed

theorem load_jobs_unvalidated_witness:
  "jobs (load_jobs_effect
     (empty_storage\<lparr>items := [js ''ac_jobs'' \<mapsto>
        js ''[0,0,0,0,0,0,0,0,0,0,0,0,0,0,0,0,0,0,0,0,0,0,0,0,0,0,0,0,0,0,0]'']\<rparr>)
     blank_state) = JArr (replicate 31 (JNum 0)) \<and>
   length (replicate 31 (JNum 0)) = 31 \<and>
   jobs (load_jobs_effect (empty_storage\<lparr>items := [js ''ac_jobs'' \<mapsto> js ''7'']\<rparr>) blank_state) =
     JNum 7"
proof -
  let ?zeros = "js ''[0,0,0,0,0,0,0,0,0,0,0,0,0,0,0,0,0,0,0,0,0,0,0,0,0,0,0,0,0,0,0]''"
  have a: "JSON_parse ?zeros =
      Inr (JArr [JNum 0, JNum 0, JNum 0, JNum 0, JNum 0, JNum 0, JNum 0, JNum 0, JNum 0, JNum 0,
                 JNum 0, JNum 0, JNum 0, JNum 0, JNum 0, JNum 0, JNum 0, JNum 0, JNum 0, JNum 0,
                 JNum 0, JNum 0, JNum 0, JNum 0, JNum 0, JNum 0, JNum 0, JNum 0, JNum 0, JNum 0,
                 JNum 0])"
    by (simp add: JSON_eval)
  have r: "replicate 31 (JNum 0) =
      [JNum 0, JNum 0, JNum 0, JNum 0, JNum 0, JNum 0, JNum 0, JNum 0, JNum 0, JNum 0,
       JNum 0, JNum 0, JNum 0, JNum 0, JNum 0, JNum 0, JNum 0, JNum 0, JNum 0, JNum 0,
       JNum 0, JNum 0, JNum 0, JNum 0, JNum 0, JNum 0, JNum 0, JNum 0, JNum 0, JNum 0,
       JNum 0]"
    by (simp add: numeral_eq_Suc)
  have b: "JSON_parse (js ''7'') = Inr (JNum 7)"
    by (simp add: JSON_eval)
  have nz: "?zeros \<noteq> []" "js ''7'' \<noteq> []" by (simp_all add: js_def)
  have s1: "\<not> access_denied (empty_storage\<lparr>items := [js ''ac_jobs'' \<mapsto> t]\<rparr>) \<and>
            items (empty_storage\<lparr>items := [js ''ac_jobs'' \<mapsto> t]\<rparr>) (js ''ac_jobs'') = Some t" for t
    by (simp add: empty_storage_def)
  show ?thesis
    using load_jobs_unvalidated
        [of "empty_storage\<lparr>items := [js ''ac_jobs'' \<mapsto> ?zeros]\<rparr>" ?zeros
            "JArr (replicate 31 (JNum 0))" blank_state]
      load_jobs_unvalidated
        [of "empty_storage\<lparr>items := [js ''ac_jobs'' \<mapsto> js ''7'']\<rparr>" "js ''7''" "JNum 7" blank_state]
      s1 nz a b
    by (simp only: r) simp
qed

subsection \<open>Resolving the base URL\<close>

lemma getDefaultApiBase_total: "\<exists>s. getDefaultApiBase h = Inr s"
  by (auto simp: getDefaultApiBase_def try_catch_def split: sum.splits option.splits)

text \<open>
  C5. \<open>getDefaultApiBase\<close> always returns a string, also when a lookup throws; and
  when neither the host global nor the environment value yields a non-empty string
  (absent, empty, or its lookup throws) the result is \<open>http://localhost:9000\<close>.
\<close>

theorem default_base_resolution:
  "(\<exists>s. getDefaultApiBase h = Inr s) \<and>
   ((\<forall>s. read_window_base h \<noteq> Inr (Some s)) \<and> (\<forall>s. read_process_env h \<noteq> Inr (Some s)) \<longrightarrow>
      getDefaultApiBase h = Inr (js ''http://localhost:9000''))"
proof
  show "\<exists>s. getDefaultApiBase h = Inr s" by (rule getDefaultApiBase_total)
  show "(\<forall>s. read_window_base h \<noteq> Inr (Some s)) \<and> (\<forall>s. read_process_env h \<noteq> Inr (Some s)) \<longrightarrow>
      getDefaultApiBase h = Inr (js ''http://localhost:9000'')"
    by (auto simp: getDefaultApiBase_def try_catch_def split: sum.splits option.splits)
qed

theorem default_base_resolution_witness:
  "read_window_base hostile_host = Inl (JsError (js ''Error'') (js ''denied'')) \<and>
   read_process_env hostile_host = Inl (JsError (js ''Error'') (js ''no env'')) \<and>
   getDefaultApiBase hostile_host = Inr (js ''http://localhost:9000'') \<and>
   getDefaultApiBase bare_host = Inr (js ''http://localhost:9000'')"
  using default_base_resolution [of hostile_host] default_base_resolution [of bare_host]
  by (simp add: read_window_base_def read_process_env_def hostile_host_def bare_host_def)

text \<open>
  C4, as amended. When the storage can be read and holds a non-empty string under
  \<open>ac_api_base\<close>, the initial \<open>apiBase\<close> is that string, whatever the computed default.
\<close>

theorem persisted_base_preferred:
  assumes "\<not> access_denied sto" and "items sto (js ''ac_api_base'') = Some v" and "v \<noteq> []"
  shows "initial_apiBase dflt sto = v \<and>
         (\<exists>st. initial_state h sto = Inr st \<and> apiBase st = v \<and> apiBaseInput st = v)"
proof -
  have a: "initial_apiBase d sto = v" for d
    using assms by (simp add: initial_apiBase_def getItem_def or_else_def)
  obtain d where "getDefaultApiBase h = Inr d" using getDefaultApiBase_total by blast
  then show ?thesis by (simp add: initial_state_def a)
qed

theorem persisted_base_preferred_witness:
  "getDefaultApiBase override_host = Inr (js ''http://injected:1'') \<and>
   initial_apiBase (js ''http://injected:1'')
     (empty_storage\<lparr>items := [js ''ac_api_base'' \<mapsto> js ''http://saved:2'']\<rparr>) = js ''http://saved:2'' \<and>
   map_sum id apiBase
     (initial_state override_host
        (empty_storage\<lparr>items := [js ''ac_api_base'' \<mapsto> js ''http://saved:2'']\<rparr>)) =
     Inr (js ''http://saved:2'')"
  using persisted_base_preferred
    [of "empty_storage\<lparr>items := [js ''ac_api_base'' \<mapsto> js ''http://saved:2'']\<rparr>"
        "js ''http://saved:2''" "js ''http://injected:1''" override_host]
  by (auto simp: empty_storage_def js_def getDefaultApiBase_def try_catch_def
        read_window_base_def override_host_def)

text \<open>
  C4 as stated fails for the empty string: the Set button with an empty input persists
  \<open>''\<close> under \<open>ac_api_base\<close>, and the next start resolves to the default instead.
\<close>

theorem persisted_empty_base_ignored:
  "getItem (persist_apiBase_effect (Set_apiBase (blank_state\<lparr>apiBaseInput := []\<rparr>)) empty_storage)
     (js ''ac_api_base'') = Inr (Some []) \<and>
   initial_apiBase (js ''http://localhost:9000'')
     (persist_apiBase_effect (Set_apiBase (blank_state\<lparr>apiBaseInput := []\<rparr>)) empty_storage) =
     js ''http://localhost:9000'' \<and>
   js ''http://localhost:9000'' \<noteq> []"
  by (simp add: persist_apiBase_effect_def Set_apiBase_def blank_state_def empty_storage_def
        setItem_def getItem_def initial_apiBase_def or_else_def js_def)

subsection \<open>Reading a response body\<close>

lemma declares_json_iff:
  "declares_json res \<longleftrightarrow>
   (\<exists>h. content_type res = Some h \<and> String_includes h (js ''application/json''))"
  by (cases "content_type res") (auto simp: declares_json_def or_else_def js_def)

text \<open>
  C6. When the content type contains \<open>application/json\<close> the body is parsed as JSON
  (and a malformed body throws); otherwise the body text is parsed as JSON when that is
  possible, and wrapped as \<open>{text: ...}\<close> when it is not.
\<close>

theorem response_body_parsing:
  "(declares_json res \<and> body_text res = Inr t \<longrightarrow> parse_body res = JSON_parse t) \<and>
   (\<not> declares_json res \<and> body_text res = Inr t \<and> JSON_parse t = Inr data \<longrightarrow>
      parse_body res = Inr data) \<and>
   (\<not> declares_json res \<and> body_text res = Inr t \<and> JSON_parse t = Inl err \<longrightarrow>
      parse_body res = Inr (JObj [(js ''text'', JStr t)])) \<and>
   (declares_json res \<longleftrightarrow>
      (\<exists>h. content_type res = Some h \<and> String_includes h (js ''application/json'')))"
  by (simp add: parse_body_def res_json_def declares_json_iff)

theorem response_body_parsing_witness:
  \<open>parse_body \<lparr>ok = True, content_type = Some (js ''application/json; charset=utf-8''),
       body_text = Inr (js ''{"code": "x"}'')\<rparr> = Inr (JObj [(js ''code'', JStr (js ''x''))]) \<and>
   parse_body \<lparr>ok = True, content_type = Some (js ''text/plain''),
       body_text = Inr (js ''[1, 2]'')\<rparr> = Inr (JArr [JNum 1, JNum 2]) \<and>
   parse_body \<lparr>ok = True, content_type = None,
       body_text = Inr (js ''oops'')\<rparr> = Inr (JObj [(js ''text'', JStr (js ''oops''))])\<close>
proof -
  have a: \<open>JSON_parse (js ''{"code": "x"}'') = Inr (JObj [(js ''code'', JStr (js ''x''))])\<close>
    by (simp add: JSON_eval)
  have b: "JSON_parse (js ''[1, 2]'') = Inr (JArr [JNum 1, JNum 2])"
    by (simp add: JSON_eval)
  have c: "JSON_parse (js ''oops'') = Inl syntax_error"
    by (simp add: JSON_eval)
  have d: "declares_json \<lparr>ok = True, content_type = Some (js ''application/json; charset=utf-8''),
       body_text = Inr t\<rparr>" for t
    by (simp add: declares_json_def or_else_def js_def)
  have e: "\<not> declares_json \<lparr>ok = True, content_type = Some (js ''text/plain''), body_text = Inr t\<rparr>"
    "\<not> declares_json \<lparr>ok = True, content_type = None, body_text = Inr t\<rparr>" for t
    by (simp_all add: declares_json_def or_else_def js_def)
  show ?thesis
    using response_body_parsing
      [of \<open>\<lparr>ok = True, content_type = Some (js ''application/json; charset=utf-8''),
             body_text = Inr (js ''{"code": "x"}'')\<rparr>\<close> \<open>js ''{"code": "x"}''\<close>]
      response_body_parsing
      [of "\<lparr>ok = True, content_type = Some (js ''text/plain''), body_text = Inr (js ''[1, 2]'')\<rparr>"
          "js ''[1, 2]''" "JArr [JNum 1, JNum 2]"]
      response_body_parsing
      [of "\<lparr>ok = True, content_type = None, body_text = Inr (js ''oops'')\<rparr>"
          "js ''oops''" _ syntax_error]
    by (simp only: a b c d e) simp
qed

subsection \<open>Successful submissions\<close>

lemma build_request_fill_form:
  "apiBase st' = apiBase st \<Longrightarrow> apiToken st' = apiToken st \<Longrightarrow>
   build_request (fill_form t d st') = build_request (fill_form t d st)"
  by (simp add: build_request_def fill_form_def)

lemma attempt_fill_form:
  "apiBase st' = apiBase st \<Longrightarrow> apiToken st' = apiToken st \<Longrightarrow>
   attempt (fill_form t d st') e = attempt (fill_form t d st) e"
  using build_request_fill_form [of st' st t d] by (simp add: attempt_def)

lemma job_of_same_config:
  "apiBase st' = apiBase st \<Longrightarrow> apiToken st' = apiToken st \<Longrightarrow> job_of st' s = job_of st s"
proof -
  assume cfg: "apiBase st' = apiBase st" "apiToken st' = apiToken st"
  obtain t d e where s: "s = (t, d, e)" by (cases s) auto
  have "result_data (fill_form t d st') e = result_data (fill_form t d st) e"
    using attempt_fill_form [OF cfg, of t d e] by (simp add: result_data_def)
  then show ?thesis by (simp add: s job_of_def new_job_def fill_form_def)
qed

lemma successful_same_config:
  "apiBase st' = apiBase st \<Longrightarrow> apiToken st' = apiToken st \<Longrightarrow>
   successful (fill_form t d st') e = successful (fill_form t d st) e"
  using attempt_fill_form [of st' st t d e] by (simp add: successful_def)

lemma submitFeature_success:
  assumes "successful st e" and "jobs st = JArr prev"
  shows "submitFeature st e =
         Inr (st\<lparr>loading := False, response := result_data st e, error := JNull,
                 jobs := JArr (take 30 (new_job st e (result_data st e) # prev)),
                 title := [], description := []\<rparr>)"
  using assms
  by (auto simp: submitFeature_def successful_def result_data_def prepend_job_def
      split: sum.splits prod.splits)

lemma submitFeature_failure:
  assumes "\<not> successful st e"
  shows "submitFeature st e =
         Inr (st\<lparr>loading := False, response := JNull,
                 error := (case attempt st e of
                             Inl err \<Rightarrow> JStr (String_of_error err)
                           | Inr (res, data) \<Rightarrow> data)\<rparr>)"
  using assms
  by (auto simp: submitFeature_def successful_def split: sum.splits prod.splits)

lemma take_append_take: "take n (xs @ take n ys) = take n (xs @ ys)"
  by (simp add: min_def)

lemma submit_all_jobs:
  assumes "jobs st = JArr prev"
    and "\<forall>s \<in> set subs. successful (fill_form (fst s) (fst (snd s)) st) (snd (snd s))"
  shows "\<exists>st'. submit_all st subs = Inr st' \<and>
           jobs st' = JArr (if subs = [] then prev else take 30 (rev (map (job_of st) subs) @ prev)) \<and>
           apiBase st' = apiBase st \<and> apiToken st' = apiToken st"
  using assms
proof (induction subs arbitrary: st prev)
  case Nil
  then show ?case by simp
next
  case (Cons s subs)
  obtain t d e where s: "s = (t, d, e)" by (cases s) auto
  let ?st0 = "fill_form t d st"
  define L where "L = new_job ?st0 e (result_data ?st0 e) # prev"
  have ok: "successful ?st0 e" using Cons.prems(2) s by simp
  have j0: "jobs ?st0 = JArr prev" using Cons.prems(1) by (simp add: fill_form_def)
  define st1 where "st1 = ?st0\<lparr>loading := False, response := result_data ?st0 e, error := JNull,
                 jobs := JArr (take 30 L), title := [], description := []\<rparr>"
  have step: "submitFeature ?st0 e = Inr st1"
    unfolding st1_def L_def by (rule submitFeature_success [OF ok j0])
  have cfg: "apiBase st1 = apiBase st" "apiToken st1 = apiToken st"
    by (simp_all add: st1_def fill_form_def)
  have j1: "jobs st1 = JArr (take 30 L)" by (simp add: st1_def)
  have all1: "\<forall>s \<in> set subs. successful (fill_form (fst s) (fst (snd s)) st1) (snd (snd s))"
    using Cons.prems(2) successful_same_config [OF cfg] by simp
  from Cons.IH [OF j1 all1] obtain st' where
    st': "submit_all st1 subs = Inr st'"
      "jobs st' = JArr (if subs = [] then take 30 L
                        else take 30 (rev (map (job_of st1) subs) @ take 30 L))"
      "apiBase st' = apiBase st1" "apiToken st' = apiToken st1"
    by blast
  have jm: "map (job_of st1) subs = map (job_of st) subs"
    using job_of_same_config [OF cfg] by simp
  have "(if subs = [] then take 30 L else take 30 (rev (map (job_of st) subs) @ take 30 L)) =
        take 30 (rev (map (job_of st) subs) @ L)"
    by (simp add: take_append_take)
  moreover have "rev (map (job_of st) (s # subs)) @ prev = rev (map (job_of st) subs) @ L"
    by (simp add: s job_of_def L_def)
  ultimately have "jobs st' = JArr (take 30 (rev (map (job_of st) (s # subs)) @ prev))"
    using st'(2) by (simp only: jm)
  moreover have "submit_all st (s # subs) = Inr st'"
    using step st'(1) by (simp add: s)
  ultimately show ?case using st'(3,4) cfg by simp
qed

lemma submit_all_append:
  "submit_all st (xs @ ys) =
   (case submit_all st xs of Inl err \<Rightarrow> Inl err | Inr mid \<Rightarrow> submit_all mid ys)"
  by (induction xs arbitrary: st) (auto split: sum.splits)

lemma JSON_parse_sample_data: "JSON_parse (JSON_stringify sample_data) = Inr sample_data"
  by (rule JSON_parse_stringify_exact) (simp_all add: sample_data_def property_order_def)

lemma parse_body_ok_response: "parse_body ok_response = Inr sample_data"
  by (simp add: parse_body_def res_json_def declares_json_def or_else_def ok_response_def
      JSON_parse_sample_data js_def del: JSON_stringify.simps)

lemma attempt_sample_env: "attempt st (sample_env now) = Inr (ok_response, sample_data)"
  by (simp add: attempt_def sample_env_def parse_body_ok_response)

lemma successful_sample_env: "successful st (sample_env now)"
  by (simp add: successful_def attempt_sample_env ok_response_def)

lemma job_of_sample_env: "job_of st (t, d, sample_env now) = sample_job t now"
proof -
  have "result_data (fill_form t d st) (sample_env now) = sample_data"
    by (simp add: result_data_def attempt_sample_env)
  then show ?thesis
    by (simp add: job_of_def new_job_def sample_job_def fill_form_def sample_env_def)
qed

text \<open>
  C1. In a sequence of successful submissions starting from any job list, the list
  after each submission is the new job followed by the first 29 entries of the list
  before it, in their order: at most 30 entries, newest first. After the whole sequence
  it is the first 30 of the created jobs, latest first, followed by the starting list.
\<close>

theorem job_list_after_submission:
  assumes "jobs st = JArr prev"
    and "\<forall>x \<in> set (subs @ [s]). successful (fill_form (fst x) (fst (snd x)) st) (snd (snd x))"
  shows "\<exists>mid old st'.
           submit_all st subs = Inr mid \<and> jobs mid = JArr old \<and>
           submit_all st (subs @ [s]) = Inr st' \<and>
           jobs st' = JArr (job_of mid s # take 29 old) \<and>
           length (job_of mid s # take 29 old) \<le> 30 \<and>
           jobs st' = JArr (take 30 (rev (map (job_of st) (subs @ [s])) @ prev))"
proof -
  have all: "\<forall>x \<in> set subs. successful (fill_form (fst x) (fst (snd x)) st) (snd (snd x))"
    using assms(2) by simp
  obtain mid where mid: "submit_all st subs = Inr mid"
      "jobs mid = JArr (if subs = [] then prev else take 30 (rev (map (job_of st) subs) @ prev))"
      "apiBase mid = apiBase st" "apiToken mid = apiToken st"
    using submit_all_jobs [OF assms(1) all] by blast
  define old where "old = (if subs = [] then prev else take 30 (rev (map (job_of st) subs) @ prev))"
  obtain t d e where s: "s = (t, d, e)" by (cases s) auto
  have "successful (fill_form t d st) e" using assms(2) s by simp
  then have ok: "successful (fill_form t d mid) e"
    using successful_same_config [OF mid(3,4)] by simp
  have jm: "jobs (fill_form t d mid) = JArr old" using mid(2) by (simp add: fill_form_def old_def)
  have last: "submit_all mid [s] =
      Inr ((fill_form t d mid)\<lparr>loading := False, response := result_data (fill_form t d mid) e,
             error := JNull, jobs := JArr (take 30 (job_of mid s # old)),
             title := [], description := []\<rparr>)"
    using submitFeature_success [OF ok jm] by (simp add: s job_of_def)
  obtain st' where st': "submit_all st (subs @ [s]) = Inr st'"
      "jobs st' = JArr (take 30 (job_of mid s # old))"
    using mid(1) last by (simp add: submit_all_append)
  obtain st'' where st'': "submit_all st (subs @ [s]) = Inr st''"
      "jobs st'' = JArr (take 30 (rev (map (job_of st) (subs @ [s])) @ prev))"
    using submit_all_jobs [OF assms] by auto
  have "jobs st' = JArr (take 30 (rev (map (job_of st) (subs @ [s])) @ prev))"
    using st'(1) st'' by simp
  moreover have "take 30 (job_of mid s # old) = job_of mid s # take 29 old" by simp
  moreover have "jobs mid = JArr old" using mid(2) by (simp add: old_def)
  ultimately show ?thesis using mid(1) st' by auto
qed

theorem job_list_after_submission_witness:
  "map_sum id jobs
     (submit_all blank_state [(js ''a'', js ''first'', sample_env 1), (js ''b'', js ''second'', sample_env 2)]) =
     Inr (JArr [sample_job (js ''b'') 2, sample_job (js ''a'') 1]) \<and>
   map_sum id jobs
     (submit_all (blank_state\<lparr>jobs := JArr (replicate 31 JNull)\<rparr>) [(js ''a'', js ''first'', sample_env 1)]) =
     Inr (JArr (sample_job (js ''a'') 1 # replicate 29 JNull))"
proof -
  have a: "jobs blank_state = JArr []" by (simp add: blank_state_def)
  have b: "jobs (blank_state\<lparr>jobs := JArr (replicate 31 JNull)\<rparr>) = JArr (replicate 31 JNull)"
    by simp
  show ?thesis
    using job_list_after_submission
        [OF a, of "[(js ''a'', js ''first'', sample_env 1)]" "(js ''b'', js ''second'', sample_env 2)"]
      job_list_after_submission [OF b, of "[]" "(js ''a'', js ''first'', sample_env 1)"]
    by (auto simp: successful_sample_env job_of_sample_env)
qed

lemma job_id_new_job: "job_id (new_job st e data) = Some (JNum (Date_now e))"
  by (simp add: new_job_def js_def)

lemma job_id_job_of: "job_id (job_of st x) = Some (JNum (Date_now (snd (snd x))))"
  by (cases x) (simp add: job_of_def job_id_new_job)

text \<open>
  C8, as amended. The id of each created job is the \<open>Date.now()\<close> reading of its
  submission. The ids of the list after a sequence of successful submissions are
  pairwise distinct when those readings are pairwise distinct, the ids of the starting
  list are pairwise distinct, and no reading is an id of the starting list.
\<close>

theorem job_ids_distinct_for_distinct_clock:
  assumes "jobs st = JArr prev"
    and "\<forall>x \<in> set subs. successful (fill_form (fst x) (fst (snd x)) st) (snd (snd x))"
    and "distinct (map job_id prev)"
    and "distinct (map (\<lambda>x. Date_now (snd (snd x))) subs)"
    and "\<forall>x \<in> set subs. Some (JNum (Date_now (snd (snd x)))) \<notin> job_id ` set prev"
  shows "(\<forall>x \<in> set subs. job_id (job_of st x) = Some (JNum (Date_now (snd (snd x))))) \<and>
         (\<exists>st' final. submit_all st subs = Inr st' \<and> jobs st' = JArr final \<and>
            distinct (map job_id final))"
proof
  show "\<forall>x \<in> set subs. job_id (job_of st x) = Some (JNum (Date_now (snd (snd x))))"
    by (simp add: job_id_job_of)
  obtain st' where st': "submit_all st subs = Inr st'"
      "jobs st' = JArr (if subs = [] then prev else take 30 (rev (map (job_of st) subs) @ prev))"
    using submit_all_jobs [OF assms(1,2)] by blast
  have ids: "map job_id (map (job_of st) subs) =
             map (\<lambda>n. Some (JNum n)) (map (\<lambda>x. Date_now (snd (snd x))) subs)"
    by (simp add: job_id_job_of)
  have "inj (\<lambda>n. Some (JNum n))" by (simp add: inj_def)
  then have d1: "distinct (map job_id (map (job_of st) subs))"
    unfolding ids using assms(4) by (simp only: distinct_map) (auto intro: inj_on_subset)
  have d2: "set (map job_id (map (job_of st) subs)) \<inter> set (map job_id prev) = {}"
    using assms(5) by (auto simp: job_id_job_of)
  have "distinct (map job_id (rev (map (job_of st) subs) @ prev))"
    using d1 d2 assms(3) by (simp add: rev_map [symmetric] del: map_map) 
  then have "distinct (take 30 (map job_id (rev (map (job_of st) subs) @ prev)))"
    by (rule distinct_take)
  then have "distinct (map job_id (take 30 (rev (map (job_of st) subs) @ prev)))"
    by (simp only: take_map)
  then have "distinct (map job_id (if subs = [] then prev
                                    else take 30 (rev (map (job_of st) subs) @ prev)))"
    using assms(3) by simp
  then show "\<exists>st' final. submit_all st subs = Inr st' \<and> jobs st' = JArr final \<and>
            distinct (map job_id final)"
    using st' by blast
qed

theorem job_ids_distinct_for_distinct_clock_witness:
  "job_id (sample_job (js ''a'') 1) = Some (JNum 1) \<and>
   map_sum id jobs
     (submit_all blank_state [(js ''a'', js ''first'', sample_env 1), (js ''b'', js ''second'', sample_env 2)]) =
     Inr (JArr [sample_job (js ''b'') 2, sample_job (js ''a'') 1]) \<and>
   distinct (map job_id [sample_job (js ''b'') 2, sample_job (js ''a'') 1])"
proof -
  let ?subs = "[(js ''a'', js ''first'', sample_env 1), (js ''b'', js ''second'', sample_env 2)]"
  have a: "jobs blank_state = JArr []" by (simp add: blank_state_def)
  have b: "\<forall>x \<in> set ?subs. successful (fill_form (fst x) (fst (snd x)) blank_state) (snd (snd x))"
    by (simp add: successful_sample_env)
  have c: "distinct (map job_id [])" by simp
  have d: "distinct (map (\<lambda>x. Date_now (snd (snd x))) ?subs)" by (simp add: sample_env_def)
  have e: "\<forall>x \<in> set ?subs. Some (JNum (Date_now (snd (snd x)))) \<notin> job_id ` set []" by simp
  note main = job_ids_distinct_for_distinct_clock [OF a b c d e]
  from main obtain st' final where f: "submit_all blank_state ?subs = Inr st'"
      "jobs st' = JArr final" "distinct (map job_id final)"
    by blast
  have g: "jobs st' = JArr [sample_job (js ''b'') 2, sample_job (js ''a'') 1]"
    using submit_all_jobs [OF a b] f(1) by (simp add: job_of_sample_env)
  have h: "job_id (job_of blank_state (js ''a'', js ''first'', sample_env 1)) =
           Some (JNum (Date_now (sample_env 1)))"
    using main by simp
  have "Date_now (sample_env 1) = 1" by (simp add: sample_env_def)
  then have "job_id (sample_job (js ''a'') 1) = Some (JNum 1)"
    using h by (simp only: job_of_sample_env)
  moreover have "distinct (map job_id [sample_job (js ''b'') 2, sample_job (js ''a'') 1])"
    using f(2,3) g by simp
  ultimately show ?thesis using f(1) g by simp
qed

text \<open>
  C8 as stated fails: two successful submissions with the same clock reading leave two
  different jobs with the same id in the list.
\<close>

theorem same_clock_reading_same_id:
  "map_sum id jobs
     (submit_all blank_state [(js ''a'', js ''first'', sample_env 5), (js ''b'', js ''second'', sample_env 5)]) =
     Inr (JArr [sample_job (js ''b'') 5, sample_job (js ''a'') 5]) \<and>
   job_id (sample_job (js ''b'') 5) = job_id (sample_job (js ''a'') 5) \<and>
   sample_job (js ''b'') 5 \<noteq> sample_job (js ''a'') 5 \<and>
   \<not> distinct (map job_id [sample_job (js ''b'') 5, sample_job (js ''a'') 5])"
proof -
  have a: "jobs blank_state = JArr []" by (simp add: blank_state_def)
  have "map_sum id jobs
     (submit_all blank_state [(js ''a'', js ''first'', sample_env 5), (js ''b'', js ''second'', sample_env 5)]) =
     Inr (JArr [sample_job (js ''b'') 5, sample_job (js ''a'') 5])"
    using submit_all_jobs [OF a, of "[(js ''a'', js ''first'', sample_env 5), (js ''b'', js ''second'', sample_env 5)]"]
    by (auto simp: successful_sample_env job_of_sample_env)
  then show ?thesis
    by (simp add: sample_job_def js_def)
qed

subsection \<open>Failed submissions\<close>

text \<open>
  C2, as amended. When the fetch throws or the status is not 2xx, the job list, the
  title and the description keep their values, the response is \<open>null\<close> and loading ends
  false. The error state is the stringified exception when the fetch throws, the parsed
  body when the body was parsed, and the stringified exception when reading or parsing
  the body throws.
\<close>

theorem failed_submission_effects:
  assumes "(\<exists>err. fetch e (build_request st) = Inl err) \<or>
           (\<exists>res. fetch e (build_request st) = Inr res \<and> \<not> ok res)"
  shows "\<exists>st'. submitFeature st e = Inr st' \<and>
           jobs st' = jobs st \<and> title st' = title st \<and> description st' = description st \<and>
           \<not> loading st' \<and> response st' = JNull \<and>
           (\<forall>err. fetch e (build_request st) = Inl err \<longrightarrow>
              error st' = JStr (String_of_error err)) \<and>
           (\<forall>res data. fetch e (build_request st) = Inr res \<and> parse_body res = Inr data \<longrightarrow>
              error st' = data) \<and>
           (\<forall>res err. fetch e (build_request st) = Inr res \<and> parse_body res = Inl err \<longrightarrow>
              error st' = JStr (String_of_error err))"
proof -
  have "\<not> successful st e"
    using assms by (auto simp: successful_def attempt_def split: sum.splits)
  from submitFeature_failure [OF this] show ?thesis
    by (auto simp: attempt_def)
qed

theorem failed_submission_effects_witness:
  \<open>submitFeature (fill_form (js ''t'') (js ''d'') blank_state) offline_env =
     Inr (fill_form (js ''t'') (js ''d'') blank_state\<lparr>error := JStr (js ''TypeError: Failed to fetch'')\<rparr>) \<and>
   submitFeature (fill_form (js ''t'') (js ''d'') blank_state) (error_env (js ''{"error": "bad input"}'')) =
     Inr (fill_form (js ''t'') (js ''d'') blank_state\<lparr>error := JObj [(js ''error'', JStr (js ''bad input''))]\<rparr>)\<close>
proof -
  let ?st = "fill_form (js ''t'') (js ''d'') blank_state"
  let ?res = \<open>\<lparr>ok = False, content_type = Some (js ''application/json''),
                 body_text = Inr (js ''{"error": "bad input"}'')\<rparr>\<close>
  have p: \<open>JSON_parse (js ''{"error": "bad input"}'') = Inr (JObj [(js ''error'', JStr (js ''bad input''))])\<close>
    by (simp add: JSON_eval)
  have q: "parse_body ?res = Inr (JObj [(js ''error'', JStr (js ''bad input''))])"
    by (simp add: parse_body_def declares_json_application_json res_json_def p)
  have f1: "fetch offline_env (build_request ?st) = Inl (TypeError (js ''Failed to fetch''))"
    by (simp add: offline_env_def)
  have f2: \<open>fetch (error_env (js ''{"error": "bad input"}'')) (build_request ?st) = Inr ?res\<close>
    by (simp add: error_env_def)
  have s: "String_of_error (TypeError (js ''Failed to fetch'')) = js ''TypeError: Failed to fetch''"
    by (simp add: TypeError_def js_def)
  have u: "st' = ?st\<lparr>error := error st'\<rparr>"
    if "jobs st' = jobs ?st" "title st' = title ?st" "description st' = description ?st"
      "\<not> loading st'" "response st' = JNull" "submitFeature ?st e = Inr st'" for st' e
    using that
    by (auto simp: submitFeature_def fill_form_def blank_state_def Let_def prepend_job_def
        split: sum.splits prod.splits if_splits)
  from failed_submission_effects [of offline_env ?st] f1
  obtain a where a: "submitFeature ?st offline_env = Inr a" "jobs a = jobs ?st" "title a = title ?st"
    "description a = description ?st" "\<not> loading a" "response a = JNull"
    "error a = JStr (String_of_error (TypeError (js ''Failed to fetch'')))"
    by auto
  from failed_submission_effects [of \<open>error_env (js ''{"error": "bad input"}'')\<close> ?st] f2 q
  obtain b where b: \<open>submitFeature ?st (error_env (js ''{"error": "bad input"}'')) = Inr b\<close>
    "jobs b = jobs ?st" "title b = title ?st"
    "description b = description ?st" "\<not> loading b" "response b = JNull"
    "error b = JObj [(js ''error'', JStr (js ''bad input''))]"
    by auto
  show ?thesis
    using u [OF a(2-6) a(1)] u [OF b(2-6) b(1)] a(1,7) b(1,7) s by simp
qed

text \<open>
  C2 as stated fails for a non-2xx response that declares JSON and whose body is not
  JSON: there is no parsed body, and the error state is the stringified SyntaxError.
\<close>

theorem unparsable_error_body:
  "fetch (error_env (js ''oops'')) (build_request (fill_form (js ''t'') (js ''d'') blank_state)) =
     Inr \<lparr>ok = False, content_type = Some (js ''application/json''), body_text = Inr (js ''oops'')\<rparr> \<and>
   parse_body \<lparr>ok = False, content_type = Some (js ''application/json''), body_text = Inr (js ''oops'')\<rparr> =
     Inl syntax_error \<and>
   submitFeature (fill_form (js ''t'') (js ''d'') blank_state) (error_env (js ''oops'')) =
     Inr (fill_form (js ''t'') (js ''d'') blank_state
            \<lparr>error := JStr (js ''SyntaxError: Unexpected token in JSON'')\<rparr>)"
proof -
  have p: "JSON_parse (js ''oops'') = Inl syntax_error"
    by (simp add: JSON_eval)
  have q: "parse_body \<lparr>ok = False, content_type = Some (js ''application/json''),
             body_text = Inr (js ''oops'')\<rparr> = Inl syntax_error"
    by (simp add: parse_body_def declares_json_application_json res_json_def p)
  have s: "String_of_error syntax_error = js ''SyntaxError: Unexpected token in JSON''"
    by (simp add: syntax_error_def js_def)
  show ?thesis
    by (simp add: q submitFeature_def attempt_def error_env_def s)
       (simp add: fill_form_def blank_state_def)
qed

end
